theory Spec2Isabelle
  imports Main
begin

section \<open>JavaScript values\<close>

text \<open>
  The clients handle parsed JSON. A string is a list of code units (the model keeps the
  code units below 256); a number is kept as the decimal literal that denotes it, since
  no operation of the code computes with one; an object is its list of own properties in
  insertion order, each key once. \<open>undefined\<close> is not a JSON value: a value that may be
  \<open>undefined\<close> is a \<open>json option\<close>, \<open>None\<close> standing for \<open>undefined\<close>.
\<close>

datatype json =
    JNull
  | JBool bool
  | JNumber string
  | JString string
  | JArray "json list"
  | JObject "(string \<times> json) list"

type_synonym jsval = "json option"

text \<open>Exceptions raised by the language itself.\<close>

datatype exn = SyntaxError | TypeError

text \<open>\<open>obj[k] = v\<close>: an existing key keeps its place, a new one goes last.\<close>

fun obj_set :: "(string \<times> 'v) list \<Rightarrow> string \<Rightarrow> 'v \<Rightarrow> (string \<times> 'v) list" where
  "obj_set [] k v = [(k, v)]"
| "obj_set ((k', v') # kvs) k v =
     (if k' = k then (k, v) # kvs else (k', v') # obj_set kvs k v)"

text \<open>
  \<open>x[k]\<close> for a key \<open>k\<close> that no prototype defines (the code reads \<open>error\<close>,
  \<open>message\<close>, \<open>ok\<close>): a TypeError on \<open>undefined\<close> and \<open>null\<close>, the own property of
  an object, \<open>undefined\<close> on every other value.
\<close>

fun get_prop :: "jsval \<Rightarrow> string \<Rightarrow> exn + jsval" where
  "get_prop None k = Inl TypeError"
| "get_prop (Some JNull) k = Inl TypeError"
| "get_prop (Some (JObject kvs)) k = Inr (map_of kvs k)"
| "get_prop (Some v) k = Inr None"

fun join :: "string \<Rightarrow> string list \<Rightarrow> string" where
  "join sep [] = []"
| "join sep [s] = s"
| "join sep (s # t # ss) = s @ sep @ join sep (t # ss)"

text \<open>
  The string conversion that a template literal and \<open>RegExp.prototype.test\<close> apply to
  their argument. An array joins its elements with commas, \<open>null\<close> elements as the empty
  string. A number prints as its literal; the engine's spelling of a number may differ
  from the literal and, like it, is made of digits, signs, a point and an exponent.
\<close>

fun ToString :: "json \<Rightarrow> string" where
  "ToString JNull = ''null''"
| "ToString (JBool b) = (if b then ''true'' else ''false'')"
| "ToString (JNumber n) = n"
| "ToString (JString s) = s"
| "ToString (JArray xs) = join '','' (map (\<lambda>x. if x = JNull then [] else ToString x) xs)"
| "ToString (JObject kvs) = ''[object Object]''"

fun ToString_val :: "jsval \<Rightarrow> string" where
  "ToString_val None = ''undefined''"
| "ToString_val (Some v) = ToString v"

text \<open>A number literal denotes zero when its mantissa has no digit but 0.\<close>

definition number_is_zero :: "string \<Rightarrow> bool" where
  "number_is_zero n =
     list_all (\<lambda>c. c = CHR ''0'' \<or> c = CHR ''-'' \<or> c = CHR ''.'')
       (takeWhile (\<lambda>c. c \<noteq> CHR ''e'' \<and> c \<noteq> CHR ''E'') n)"

text \<open>The boolean conversion of \<open>!x\<close>, \<open>x && y\<close> and \<open>x || y\<close>.\<close>

fun truthy :: "jsval \<Rightarrow> bool" where
  "truthy None = False"
| "truthy (Some JNull) = False"
| "truthy (Some (JBool b)) = b"
| "truthy (Some (JNumber n)) = (\<not> number_is_zero n)"
| "truthy (Some (JString s)) = (s \<noteq> [])"
| "truthy (Some (JArray xs)) = True"
| "truthy (Some (JObject kvs)) = True"

subsection \<open>A regular expression that is one literal\<close>

fun starts_with :: "string \<Rightarrow> string \<Rightarrow> bool" where
  "starts_with [] s = True"
| "starts_with (p # ps) [] = False"
| "starts_with (p # ps) (c # cs) = (p = c \<and> starts_with ps cs)"


subsection \<open>JSON.parse\<close>

definition is_ws :: "char \<Rightarrow> bool" where
  "is_ws c = (c = CHR 0x20 \<or> c = CHR 0x09 \<or> c = CHR 0x0A \<or> c = CHR 0x0D)"

definition skip_ws :: "string \<Rightarrow> string" where
  "skip_ws cs = dropWhile is_ws cs"

definition is_digit :: "char \<Rightarrow> bool" where
  "is_digit c = (48 \<le> (of_char c :: nat) \<and> (of_char c :: nat) \<le> 57)"

definition hex_digit :: "char \<Rightarrow> nat option" where
  "hex_digit c =
     (let n = (of_char c :: nat) in
      if 48 \<le> n \<and> n \<le> 57 then Some (n - 48)
      else if 97 \<le> n \<and> n \<le> 102 then Some (n - 87)
      else if 65 \<le> n \<and> n \<le> 70 then Some (n - 55)
      else None)"

text \<open>
  The code unit of \<open>\<^verbatim>\<open>\u\<close>hhhh\<close>; the model of strings has the units below 256 only,
  and the parser has no result for a text that spells another one.
\<close>

definition unicode_escape :: "string \<Rightarrow> char option" where
  "unicode_escape hs =
     (case map hex_digit hs of
        [Some a, Some b, Some c, Some d] \<Rightarrow>
          (if a = 0 \<and> b = 0 then Some (char_of (16 * c + d)) else None)
      | _ \<Rightarrow> None)"

definition simple_escape :: "char \<Rightarrow> char option" where
  "simple_escape e =
     (if e = CHR 0x22 then Some (CHR 0x22)
      else if e = CHR 0x5C then Some (CHR 0x5C)
      else if e = CHR ''/'' then Some (CHR ''/'')
      else if e = CHR ''b'' then Some (CHR 0x08)
      else if e = CHR ''f'' then Some (CHR 0x0C)
      else if e = CHR ''n'' then Some (CHR 0x0A)
      else if e = CHR ''r'' then Some (CHR 0x0D)
      else if e = CHR ''t'' then Some (CHR 0x09)
      else None)"

text \<open>The characters of a string literal after its opening quote, up to the closing one.\<close>

fun parse_chars :: "string \<Rightarrow> string \<Rightarrow> (string \<times> string) option" where
  "parse_chars acc [] = None"
| "parse_chars acc [c] = (if c = CHR 0x22 then Some (rev acc, []) else None)"
| "parse_chars acc (c # e # r) =
     (if c = CHR 0x22 then Some (rev acc, e # r)
      else if c = CHR 0x5C then
        (if e = CHR ''u'' then
           (case unicode_escape (take 4 r) of
              None \<Rightarrow> None
            | Some u \<Rightarrow> parse_chars (u # acc) (drop 4 r))
         else
           (case simple_escape e of
              None \<Rightarrow> None
            | Some u \<Rightarrow> parse_chars (u # acc) r))
      else if (of_char c :: nat) < 32 then None
      else parse_chars (c # acc) (e # r))"

text \<open>
  A number literal: an optional minus, an integer part without a leading zero, an optional
  fraction, an optional exponent. The result is the literal and the rest of the text.
\<close>

definition parse_int_part :: "string \<Rightarrow> (string \<times> string) option" where
  "parse_int_part cs =
     (let ds = takeWhile is_digit cs in
      if ds = [] \<or> (hd ds = CHR ''0'' \<and> length ds > 1) then None
      else Some (ds, dropWhile is_digit cs))"

definition parse_digits1 :: "string \<Rightarrow> (string \<times> string) option" where
  "parse_digits1 cs =
     (let ds = takeWhile is_digit cs in
      if ds = [] then None else Some (ds, dropWhile is_digit cs))"

definition parse_fraction :: "string \<Rightarrow> (string \<times> string) option" where
  "parse_fraction cs =
     (case cs of
        c # r \<Rightarrow>
          (if c = CHR ''.'' then
             (case parse_digits1 r of None \<Rightarrow> None | Some (ds, r') \<Rightarrow> Some (c # ds, r'))
           else Some ([], cs))
      | [] \<Rightarrow> Some ([], cs))"

definition parse_exponent :: "string \<Rightarrow> (string \<times> string) option" where
  "parse_exponent cs =
     (case cs of
        c # r \<Rightarrow>
          (if c = CHR ''e'' \<or> c = CHR ''E'' then
             (case r of
                s # r' \<Rightarrow>
                  (if s = CHR ''+'' \<or> s = CHR ''-'' then
                     (case parse_digits1 r' of
                        None \<Rightarrow> None
                      | Some (ds, r'') \<Rightarrow> Some (c # s # ds, r''))
                   else
                     (case parse_digits1 r of
                        None \<Rightarrow> None
                      | Some (ds, r'') \<Rightarrow> Some (c # ds, r'')))
              | [] \<Rightarrow> None)
           else Some ([], cs))
      | [] \<Rightarrow> Some ([], cs))"

definition parse_number :: "string \<Rightarrow> (string \<times> string) option" where
  "parse_number cs =
     (let (sign, r0) =
        (case cs of c # r \<Rightarrow> if c = CHR ''-'' then ([c], r) else ([], cs) | [] \<Rightarrow> ([], cs))
      in case parse_int_part r0 of
           None \<Rightarrow> None
         | Some (ip, r1) \<Rightarrow>
             (case parse_fraction r1 of
                None \<Rightarrow> None
              | Some (fp, r2) \<Rightarrow>
                  (case parse_exponent r2 of
                     None \<Rightarrow> None
                   | Some (ep, r3) \<Rightarrow> Some (sign @ ip @ fp @ ep, r3))))"

text \<open>
  Recursive descent over the text: each function returns what it has read and the rest
  of the text. A repeated key of an object keeps its last value. The tests
  \<open>length r < length cs\<close> are there for the termination of the recursion; they hold
  whenever a value has been read, since reading a value consumes text.
\<close>

function parse_value :: "string \<Rightarrow> (json \<times> string) option"
  and parse_elements :: "json list \<Rightarrow> string \<Rightarrow> (json list \<times> string) option"
  and parse_members ::
    "(string \<times> json) list \<Rightarrow> string \<Rightarrow> ((string \<times> json) list \<times> string) option"
where
  "parse_value cs =
     (case skip_ws cs of
        [] \<Rightarrow> None
      | c # r \<Rightarrow>
          if c = CHR ''{'' then
            (case skip_ws r of
               [] \<Rightarrow> None
             | c' # r' \<Rightarrow>
                 if c' = CHR ''}'' then Some (JObject [], r')
                 else (case parse_members [] (c' # r') of
                         None \<Rightarrow> None
                       | Some (kvs, r'') \<Rightarrow> Some (JObject kvs, r'')))
          else if c = CHR ''['' then
            (case skip_ws r of
               [] \<Rightarrow> None
             | c' # r' \<Rightarrow>
                 if c' = CHR '']'' then Some (JArray [], r')
                 else (case parse_elements [] (c' # r') of
                         None \<Rightarrow> None
                       | Some (vs, r'') \<Rightarrow> Some (JArray vs, r'')))
          else if c = CHR 0x22 then
            (case parse_chars [] r of None \<Rightarrow> None | Some (s, r') \<Rightarrow> Some (JString s, r'))
          else if starts_with ''true'' (c # r) then Some (JBool True, drop 4 (c # r))
          else if starts_with ''false'' (c # r) then Some (JBool False, drop 5 (c # r))
          else if starts_with ''null'' (c # r) then Some (JNull, drop 4 (c # r))
          else (case parse_number (c # r) of
                  None \<Rightarrow> None
                | Some (l, r') \<Rightarrow> Some (JNumber l, r')))"
| "parse_elements acc cs =
     (case parse_value cs of
        None \<Rightarrow> None
      | Some (v, r) \<Rightarrow>
          if length r < length cs then
            (case skip_ws r of
               [] \<Rightarrow> None
             | c # r' \<Rightarrow>
                 if c = CHR '','' then parse_elements (v # acc) r'
                 else if c = CHR '']'' then Some (rev (v # acc), r')
                 else None)
          else None)"
| "parse_members acc cs =
     (case skip_ws cs of
        [] \<Rightarrow> None
      | c # r \<Rightarrow>
          if c = CHR 0x22 then
            (case parse_chars [] r of
               None \<Rightarrow> None
             | Some (k, r1) \<Rightarrow>
                 (case skip_ws r1 of
                    [] \<Rightarrow> None
                  | c1 # r2 \<Rightarrow>
                      if c1 = CHR '':'' then
                        (case parse_value r2 of
                           None \<Rightarrow> None
                         | Some (v, r3) \<Rightarrow>
                             if length r3 < length r2 then
                               (case skip_ws r3 of
                                  [] \<Rightarrow> None
                                | c3 # r4 \<Rightarrow>
                                    if c3 = CHR '','' then parse_members (obj_set acc k v) r4
                                    else if c3 = CHR ''}'' then Some (obj_set acc k v, r4)
                                    else None)
                             else None)
                      else None))
          else None)"
  by pat_completeness auto
termination
proof -
  have ws: "\<And>cs c r. skip_ws cs = c # r \<Longrightarrow> length r < length cs"
  proof -
    fix cs c r assume a: "skip_ws cs = c # r"
    have "length (dropWhile is_ws cs) \<le> length cs" by (rule length_dropWhile_le)
    with a show "length r < length cs" by (simp add: skip_ws_def)
  qed
  have chars: "\<And>acc cs s r. parse_chars acc cs = Some (s, r) \<Longrightarrow> length r < length cs"
  proof -
    fix acc cs s r show "parse_chars acc cs = Some (s, r) \<Longrightarrow> length r < length cs"
      by (induction acc cs rule: parse_chars.induct) (auto split: if_splits option.splits)
  qed
  show ?thesis
    by (relation "measure (\<lambda>x. case x of
                     Inl cs \<Rightarrow> 2 * length cs
                   | Inr (Inl (acc, cs)) \<Rightarrow> 2 * length cs + 1
                   | Inr (Inr (acc, cs)) \<Rightarrow> 2 * length cs + 1)")
       (auto dest!: ws chars)
qed

definition JSON_parse :: "string \<Rightarrow> exn + json" where
  "JSON_parse s =
     (case parse_value s of
        None \<Rightarrow> Inl SyntaxError
      | Some (v, r) \<Rightarrow> if skip_ws r = [] then Inr v else Inl SyntaxError)"

section \<open>Batch error classification (messaging-api-messenger)\<close>

text \<open>
  Modelled from the spec: the declaration of \<open>BatchRequestErrorInfo\<close> (\<open>./types\<close>) is
  not among the sources. The spec's BatchRequestItem has a method identifier and a
  relative resource path; its BatchResultItem has a status code, the raw response body
  and a reference to the originating request.
\<close>

record BatchRequestItem =
  http_method :: string
  relative_url :: string

record BatchResponse =
  code :: int
  body :: string

text \<open>
  Modelled from the spec: the missing type \<open>BatchRequestErrorInfo\<close>, the request and
  its response; the code reads \<open>errInfo.response.body\<close>.
\<close>

record BatchRequestErrorInfo =
  request :: BatchRequestItem
  response :: BatchResponse

text \<open>
  The \<open>try\<close> block of \<open>getErrorMessage\<close>:
  \<open>const { message } = JSON.parse(errInfo.response.body).error; return message;\<close>
  The parser is an argument, so that what is proved holds for every parser.
\<close>

definition getErrorMessage_try ::
  "(string \<Rightarrow> exn + json) \<Rightarrow> BatchRequestErrorInfo \<Rightarrow> exn + jsval" where
  "getErrorMessage_try parse errInfo =
     (case parse (body (response errInfo)) of
        Inl e \<Rightarrow> Inl e
      | Inr parsed \<Rightarrow>
          (case get_prop (Some parsed) ''error'' of
             Inl e \<Rightarrow> Inl e
           | Inr err \<Rightarrow> get_prop err ''message''))"

text \<open>\<open>catch (_) { return ''; }\<close>\<close>

definition getErrorMessage ::
  "(string \<Rightarrow> exn + json) \<Rightarrow> BatchRequestErrorInfo \<Rightarrow> exn + jsval" where
  "getErrorMessage parse errInfo =
     (case getErrorMessage_try parse errInfo of
        Inl _ \<Rightarrow> Inr (Some (JString []))
      | Inr message \<Rightarrow> Inr message)"


definition errInfo_of_body :: "string \<Rightarrow> BatchRequestErrorInfo" where
  "errInfo_of_body b =
     \<lparr>request = \<lparr>http_method = ''POST'', relative_url = ''me/messages''\<rparr>,
      response = \<lparr>code = 400, body = b\<rparr>\<rparr>"

section \<open>Key-case conversion (messaging-api-common)\<close>

text \<open>
  Modelled from the spec: \<open>camelcaseKeysDeep\<close> and \<open>snakecaseKeysDeep\<close> are imported
  from \<open>messaging-api-common\<close>, which is not among the sources. Every definition of
  this section follows sections 3 and 4.1 of the spec. A KeyedValue is a JSON value here;
  opaque binary payloads, which the transformer hands back untouched, are no JSON values
  and are not part of the type. Letters are the ASCII letters.
\<close>

type_synonym KeyedValue = json

datatype CaseConvention = snake | camel

definition is_upper :: "char \<Rightarrow> bool" where
  "is_upper c = (65 \<le> (of_char c :: nat) \<and> (of_char c :: nat) \<le> 90)"

definition is_lower :: "char \<Rightarrow> bool" where
  "is_lower c = (97 \<le> (of_char c :: nat) \<and> (of_char c :: nat) \<le> 122)"

definition toLowerCase :: "char \<Rightarrow> char" where
  "toLowerCase c = (if is_upper c then char_of ((of_char c :: nat) + 32) else c)"

definition toUpperCase :: "char \<Rightarrow> char" where
  "toUpperCase c = (if is_lower c then char_of ((of_char c :: nat) - 32) else c)"

text \<open>The segments of a key between its underscores; a key without one is one segment.\<close>

fun split_underscore :: "string \<Rightarrow> string list" where
  "split_underscore [] = [[]]"
| "split_underscore (c # cs) =
     (if c = CHR ''_'' then [] # split_underscore cs
      else (case split_underscore cs of
              [] \<Rightarrow> [[c]]
            | s # ss \<Rightarrow> (c # s) # ss))"

text \<open>The first character upper-cased, the rest left unchanged.\<close>

fun capitalize :: "string \<Rightarrow> string" where
  "capitalize [] = []"
| "capitalize (c # cs) = toUpperCase c # cs"

text \<open>
  Modelled from the spec: the key rewrite rule snake to camel of the missing
  \<open>camelcaseKeysDeep\<close>. The key is split on underscores; the first segment is kept as it is;
  each later non-empty segment has its first character upper-cased; the segments are
  concatenated with no separator. The spec leaves the treatment of empty segments to be
  decided once: here the underscores next to an empty segment (consecutive, leading and
  trailing underscores) stay in the output as literal underscores, so none is dropped.
  \<open>camel_join prev ss\<close> appends the segments \<open>ss\<close> that follow the segment \<open>prev\<close>.
\<close>

fun camel_join :: "string \<Rightarrow> string list \<Rightarrow> string" where
  "camel_join prev [] = []"
| "camel_join prev (s # ss) =
     (if prev = [] \<or> s = [] then ''_'' else []) @ capitalize s @ camel_join s ss"

text \<open>
  Modelled from the spec: the rewriting of one key by the missing \<open>camelcaseKeysDeep\<close>,
  the first segment followed by the later ones.
\<close>

definition camelCase :: "string \<Rightarrow> string" where
  "camelCase k = (case split_underscore k of [] \<Rightarrow> [] | s # ss \<Rightarrow> s @ camel_join s ss)"

text \<open>
  Modelled from the spec: the key rewrite rule camel to snake of the missing
  \<open>snakecaseKeysDeep\<close>. The key is scanned for uppercase letters; an underscore is
  inserted before each one except at position 0, and every letter is lower-cased. Each
  uppercase letter of a run is a boundary of its own.
\<close>

fun snake_scan :: "string \<Rightarrow> string" where
  "snake_scan [] = []"
| "snake_scan (c # cs) =
     (if is_upper c then CHR ''_'' # toLowerCase c # snake_scan cs
      else toLowerCase c # snake_scan cs)"

text \<open>
  Modelled from the spec: the rewriting of one key by the missing \<open>snakecaseKeysDeep\<close>;
  the character at position 0 is lower-cased without an underscore before it.
\<close>

definition snakeCase :: "string \<Rightarrow> string" where
  "snakeCase k = (case k of [] \<Rightarrow> [] | c # cs \<Rightarrow> toLowerCase c # snake_scan cs)"

text \<open>
  The new mapping is built key by key, in the order of the old one; where two keys are
  rewritten to the same key, the later value takes the place of the earlier (the spec
  does not say which of the two stays).
\<close>

abbreviation put :: "string \<times> 'v \<Rightarrow> (string \<times> 'v) list \<Rightarrow> (string \<times> 'v) list" where
  "put \<equiv> (\<lambda>kv acc. obj_set acc (fst kv) (snd kv))"

definition rebuild :: "(string \<times> json) list \<Rightarrow> (string \<times> json) list" where
  "rebuild kvs = fold put kvs []"

text \<open>
  Modelled from the spec: the traversal of the missing \<open>camelcaseKeysDeep\<close> and
  \<open>snakecaseKeysDeep\<close>. Every key of every mapping is rewritten, sequences are
  converted element by element, scalars are returned unchanged.
\<close>

fun mapKeysDeep :: "(string \<Rightarrow> string) \<Rightarrow> json \<Rightarrow> json" where
  "mapKeysDeep f (JObject kvs) =
     JObject (rebuild (map (\<lambda>kv. (f (fst kv), mapKeysDeep f (snd kv))) kvs))"
| "mapKeysDeep f (JArray xs) = JArray (map (mapKeysDeep f) xs)"
| "mapKeysDeep f v = v"

text \<open>
  Modelled from the spec: \<open>camelcaseKeysDeep\<close> of \<open>messaging-api-common\<close>, the
  conversion toward camelCase.
\<close>

definition camelcaseKeysDeep :: "json \<Rightarrow> json" where
  "camelcaseKeysDeep v = mapKeysDeep camelCase v"

text \<open>
  Modelled from the spec: \<open>snakecaseKeysDeep\<close> of \<open>messaging-api-common\<close>, the
  conversion toward snake_case.
\<close>

definition snakecaseKeysDeep :: "json \<Rightarrow> json" where
  "snakecaseKeysDeep v = mapKeysDeep snakeCase v"

text \<open>
  Modelled from the spec: the \<open>convert\<close> of its testable properties, the missing
  transformer with the target convention as an argument.
\<close>

fun convert :: "KeyedValue \<Rightarrow> CaseConvention \<Rightarrow> KeyedValue" where
  "convert v camel = camelcaseKeysDeep v"
| "convert v snake = snakecaseKeysDeep v"

text \<open>The keys of a value, at every depth.\<close>

fun keys_deep :: "json \<Rightarrow> string set" where
  "keys_deep (JObject kvs) = fst ` set kvs \<union> (\<Union>kv \<in> set kvs. keys_deep (snd kv))"
| "keys_deep (JArray xs) = (\<Union>x \<in> set xs. keys_deep x)"
| "keys_deep v = {}"

text \<open>Every mapping of the value has each key once, as an object has.\<close>

fun distinct_keys :: "json \<Rightarrow> bool" where
  "distinct_keys (JObject kvs) =
     (distinct (map fst kvs) \<and> list_all (\<lambda>kv. distinct_keys (snd kv)) kvs)"
| "distinct_keys (JArray xs) = list_all distinct_keys xs"
| "distinct_keys v = True"



text \<open>
  The options of the two \<open>createNewStickerSet\<close> tests: the same call written with
  camelCase keys and with snake_case keys (the second is also the part of the posted body
  that the mock expects).
\<close>

definition createNewStickerSet_options_camelcase :: json where
  "createNewStickerSet_options_camelcase =
     JObject [(''containsMasks'', JBool True),
              (''maskPosition'',
                 JObject [(''point'', JString ''eyes''), (''xShift'', JNumber ''10''),
                          (''yShift'', JNumber ''10''), (''scale'', JNumber ''1'')])]"

definition createNewStickerSet_options_snakecase :: json where
  "createNewStickerSet_options_snakecase =
     JObject [(''contains_masks'', JBool True),
              (''mask_position'',
                 JObject [(''point'', JString ''eyes''), (''x_shift'', JNumber ''10''),
                          (''y_shift'', JNumber ''10''), (''scale'', JNumber ''1'')])]"

text \<open>
  The reply of the \<open>getStickerSet\<close> test (its \<open>result\<close>) and the value the test
  expects from the client, without the \<open>emoji\<close> field of the sticker, whose value has
  code units above 255.
\<close>

definition getStickerSet_reply_result :: json where
  "getStickerSet_reply_result =
     JObject [(''name'', JString ''sticker set name''),
              (''title'', JString ''sticker set title''),
              (''is_animated'', JBool False),
              (''contains_masks'', JBool False),
              (''stickers'',
                 JArray [JObject [(''width'', JNumber ''512''), (''height'', JNumber ''512''),
                                  (''set_name'', JString ''sticker set name''),
                                  (''is_animated'', JBool False),
                                  (''thumb'',
                                     JObject [(''file_id'',
                                                 JString ''AAQEAANDAQACEDVoAAFVA7aGNPt1If3eYTAABAEAB20AAzkOAAIWB''),
                                              (''file_size'', JNumber ''5706''),
                                              (''width'', JNumber ''128''),
                                              (''height'', JNumber ''128'')]),
                                  (''file_id'', JString ''CAADBAADQwEAAhA1aAABVQO2hjT7dSEWB''),
                                  (''file_size'', JNumber ''36424'')]])]"

definition getStickerSet_result :: json where
  "getStickerSet_result =
     JObject [(''name'', JString ''sticker set name''),
              (''title'', JString ''sticker set title''),
              (''isAnimated'', JBool False),
              (''containsMasks'', JBool False),
              (''stickers'',
                 JArray [JObject [(''width'', JNumber ''512''), (''height'', JNumber ''512''),
                                  (''setName'', JString ''sticker set name''),
                                  (''isAnimated'', JBool False),
                                  (''thumb'',
                                     JObject [(''fileId'',
                                                 JString ''AAQEAANDAQACEDVoAAFVA7aGNPt1If3eYTAABAEAB20AAzkOAAIWB''),
                                              (''fileSize'', JNumber ''5706''),
                                              (''width'', JNumber ''128''),
                                              (''height'', JNumber ''128'')]),
                                  (''fileId'', JString ''CAADBAADQwEAAhA1aAABVQO2hjT7dSEWB''),
                                  (''fileSize'', JNumber ''36424'')]])]"

subsection \<open>Notions used in the proofs about the conversion\<close>

definition no_underscore :: "string \<Rightarrow> bool" where
  "no_underscore s = (CHR ''_'' \<notin> set s)"

text \<open>
  The segments of the output of \<open>camelCase\<close>: a run of non-empty segments is merged
  into one, an empty segment stays. \<open>cur\<close> is the output segment being built,
  \<open>prev\<close> the input segment that came last.
\<close>

fun merge_segments :: "string \<Rightarrow> string \<Rightarrow> string list \<Rightarrow> string list" where
  "merge_segments cur prev [] = [cur]"
| "merge_segments cur prev (t # ts) =
     (if prev = [] \<or> t = [] then cur # merge_segments (capitalize t) t ts
      else merge_segments (cur @ capitalize t) t ts)"

section \<open>HTTP responses and the uniform exception\<close>

text \<open>
  What axios hands to the clients: a response with its data, its status, the config of the
  request and the request object. The types of the data, of the config and of the request
  object are parameters.
\<close>

record ('d, 'c, 'q) AxiosResponse =
  res_data :: 'd
  res_status :: int
  res_config :: 'c
  res_request :: 'q

text \<open>
  An error value as the clients read it: its message and, when it comes from axios or is
  an AxiosError, the config, the request and the response it carries (\<open>None\<close> for a
  property that is \<open>undefined\<close>).
\<close>

record ('d, 'c, 'q) js_error =
  err_message :: string
  err_config :: "'c option"
  err_request :: "'q option"
  err_response :: "('d, 'c, 'q) AxiosResponse option"

text \<open>
  Modelled from the spec: the package \<open>axios-error\<close> is not among the sources. By
  section 7 of the spec the uniform exception carries the platform message, the original
  request config and the raw response: \<open>new AxiosError(message, err)\<close> has the given
  message and the config, request and response of \<open>err\<close>.
\<close>

definition AxiosError :: "string \<Rightarrow> ('d, 'c, 'q) js_error \<Rightarrow> ('d, 'c, 'q) js_error" where
  "AxiosError msg err =
     \<lparr>err_message = msg, err_config = err_config err, err_request = err_request err,
      err_response = err_response err\<rparr>"

text \<open>
  The TypeError that reading a property of \<open>undefined\<close> or \<open>null\<close> throws, as an error
  value: it has the engine's message and carries nothing else.
\<close>

definition TypeError_message :: string where
  "TypeError_message = ''Cannot read property of undefined''"

definition thrown_TypeError :: "('d, 'c, 'q) js_error" where
  "thrown_TypeError =
     \<lparr>err_message = TypeError_message, err_config = None, err_request = None,
      err_response = None\<rparr>"

text \<open>
  The network is the other side of every request. Its state is the list of the requests
  sent so far; the outcome of a request (a rejection or a response) may depend on them.
  \<open>send\<close> performs one request: it reads the outcome and records the request.
\<close>

definition send :: "('r list \<Rightarrow> 'r \<Rightarrow> 'o) \<Rightarrow> 'r \<Rightarrow> 'r list \<Rightarrow> 'o \<times> 'r list" where
  "send transport req sent = (transport sent req, sent @ [req])"

section \<open>SlackOAuthClient.callMethod\<close>

text \<open>
  The client holds its token and its axios instance. A request is the pair of the
  arguments of \<open>this._axios.post(method, querystring.stringify(body))\<close>; the body is
  kept as the object that \<open>querystring.stringify\<close> serialises.

  \<open>snakecaseKeysDeep\<close> and \<open>camelcaseKeysDeep\<close>, which the module imports from
  \<open>messaging-api-common\<close>, are the arguments \<open>snakecase\<close> and \<open>camelcase\<close> of the
  functions below: what is proved of \<open>callMethod\<close> holds whatever the two conversions
  return.
\<close>

record ('c, 'q) SlackOAuthClient =
  token :: string
  axios_post ::
    "(string \<times> json) list \<Rightarrow> string \<times> json \<Rightarrow>
     (jsval, 'c, 'q) js_error + (jsval, 'c, 'q) AxiosResponse"

text \<open>\<open>omit(obj, keys)\<close> of lodash, for keys that are plain property names.\<close>

definition omit :: "(string \<times> 'v) list \<Rightarrow> string list \<Rightarrow> (string \<times> 'v) list" where
  "omit obj ks = filter (\<lambda>kv. fst kv \<notin> set ks) obj"

text \<open>\<open>a || b\<close>, for a right operand that is not \<open>undefined\<close>.\<close>

fun or_else :: "jsval \<Rightarrow> json \<Rightarrow> json" where
  "or_else None b = b"
| "or_else (Some a) b = (if truthy (Some a) then a else b)"

text \<open>
  \<open>{ ...omit(inputBody, ['token', 'accessToken']),
      token: inputBody.accessToken || inputBody.token || this._token }\<close>
\<close>

definition callMethod_body ::
  "('c, 'q) SlackOAuthClient \<Rightarrow> (string \<times> json) list \<Rightarrow> (string \<times> json) list" where
  "callMethod_body c inputBody =
     obj_set (omit inputBody [''token'', ''accessToken'']) ''token''
       (or_else (map_of inputBody ''accessToken'')
          (or_else (map_of inputBody ''token'') (JString (token c))))"

text \<open>The argument of \<open>querystring.stringify\<close>: \<open>snakecaseKeysDeep(body)\<close>.\<close>

definition callMethod_posted ::
  "(json \<Rightarrow> json) \<Rightarrow> ('c, 'q) SlackOAuthClient \<Rightarrow> (string \<times> json) list \<Rightarrow> json" where
  "callMethod_posted snakecase c inputBody = snakecase (JObject (callMethod_body c inputBody))"

text \<open>
  The \<open>try\<close> block of \<open>callMethod\<close>, after the post: a rejected post, the TypeError
  of \<open>data.ok\<close> on data that is \<open>undefined\<close> or \<open>null\<close>, and the AxiosError thrown
  when \<open>data.ok\<close> is falsy all leave the block as exceptions.
\<close>

definition callMethod_check ::
  "(jsval \<Rightarrow> jsval) \<Rightarrow> (jsval, 'c, 'q) js_error + (jsval, 'c, 'q) AxiosResponse \<Rightarrow>
   (jsval, 'c, 'q) js_error + jsval"
  where
  "callMethod_check camelcase outcome =
     (case outcome of
        Inl err \<Rightarrow> Inl err
      | Inr res \<Rightarrow>
          (let data = camelcase (res_data res) in
           case get_prop data ''ok'' of
             Inl e \<Rightarrow> Inl thrown_TypeError
           | Inr ok \<Rightarrow>
               if \<not> truthy ok then
                 (case get_prop data ''error'' of
                    Inl e \<Rightarrow> Inl thrown_TypeError
                  | Inr error \<Rightarrow>
                      Inl (AxiosError (''Slack API - '' @ ToString_val error)
                             \<lparr>err_message = [], err_config = Some (res_config res),
                              err_request = Some (res_request res),
                              err_response = Some res\<rparr>))
               else Inr data))"

definition callMethod_try ::
  "(json \<Rightarrow> json) \<Rightarrow> (jsval \<Rightarrow> jsval) \<Rightarrow> ('c, 'q) SlackOAuthClient \<Rightarrow> string \<Rightarrow>
   (string \<times> json) list \<Rightarrow> (string \<times> json) list \<Rightarrow>
   ((jsval, 'c, 'q) js_error + jsval) \<times> (string \<times> json) list"
  where
  "callMethod_try snakecase camelcase c api_method inputBody sent =
     (let (outcome, sent') =
        send (axios_post c) (api_method, callMethod_posted snakecase c inputBody) sent
      in (callMethod_check camelcase outcome, sent'))"

text \<open>\<open>catch (err) { throw new AxiosError(err.message, err); }\<close>\<close>

definition callMethod ::
  "(json \<Rightarrow> json) \<Rightarrow> (jsval \<Rightarrow> jsval) \<Rightarrow> ('c, 'q) SlackOAuthClient \<Rightarrow> string \<Rightarrow>
   (string \<times> json) list \<Rightarrow> (string \<times> json) list \<Rightarrow>
   ((jsval, 'c, 'q) js_error + jsval) \<times> (string \<times> json) list"
  where
  "callMethod snakecase camelcase c api_method inputBody sent =
     (let (result, sent') = callMethod_try snakecase camelcase c api_method inputBody sent
      in (case result of
            Inl err \<Rightarrow> Inl (AxiosError (err_message err) err)
          | Inr data \<Rightarrow> Inr data,
          sent'))"

text \<open>
  The conversion of the data of a response by the \<open>camelcaseKeysDeep\<close> of section
  4.1 of the spec; \<open>undefined\<close> data has no keys to rewrite.
\<close>

definition camelcase_data :: "jsval \<Rightarrow> jsval" where
  "camelcase_data d = map_option camelcaseKeysDeep d"



section \<open>LineClient: errors of the methods\<close>

text \<open>
  The error body of the LINE API, as the parameter type of \<open>handleError\<close> declares it;
  \<open>details\<close> may be \<open>undefined\<close>.
\<close>

record error_detail =
  property :: string
  detail_message :: string

















text \<open>A Slack client whose post is rejected with a given error.\<close>

definition slack_client_rejecting ::
  "(jsval, string, string) js_error \<Rightarrow> (string, string) SlackOAuthClient" where
  "slack_client_rejecting err = \<lparr>token = ''xoxb'', axios_post = (\<lambda>sent req. Inl err)\<rparr>"

definition network_error :: "(jsval, string, string) js_error" where
  "network_error =
     \<lparr>err_message = ''Network Error'', err_config = Some ''POST'',
      err_request = Some ''XMLHttpRequest'', err_response = None\<rparr>"

text \<open>
  The fields of the object that \<open>callMethod\<close> posts when the conversion is the
  \<open>snakecaseKeysDeep\<close> of section 4.1 of the spec.
\<close>

definition posted_fields ::
  "('c, 'q) SlackOAuthClient \<Rightarrow> (string \<times> json) list \<Rightarrow> (string \<times> json) list" where
  "posted_fields c inputBody =
     (case callMethod_posted snakecaseKeysDeep c inputBody of JObject kvs \<Rightarrow> kvs | _ \<Rightarrow> [])"

section \<open>Messenger.createMessage\<close>

text \<open>
  A quick reply, with the property names the code reads. A property that may be missing
  is an option. \<open>.length\<close> of a string counts its code units.
\<close>

record QuickReply =
  content_type :: string
  title :: "string option"
  payload :: "string option"
  image_url :: "string option"

text \<open>
  A message: its text, its attachment and its quick replies, each of which may be
  missing; any further fields are the extension of the record.
\<close>

record Message =
  message_text :: "string option"
  attachment :: "json option"
  quick_replies :: "QuickReply list option"

text \<open>
  The value of \<open>options.quick_replies\<close>, which the code tests with \<open>Array.isArray\<close>:
  an array of quick replies, or a value that is no array, of which the code reads the
  truthiness only. A missing property is \<open>None\<close>.
\<close>

datatype quick_replies_value = NotArray bool | IsArray "QuickReply list"

record MessageOptions =
  options_quick_replies :: "quick_replies_value option"

text \<open>\<open>invariant(condition, message)\<close> throws an error with the message.\<close>

datatype invariant_error = Invariant_Violation string

definition invariant :: "bool \<Rightarrow> string \<Rightarrow> invariant_error + unit" where
  "invariant condition msg = (if condition then Inr () else Inl (Invariant_Violation msg))"

text \<open>The white space and line terminators that \<open>trim\<close> strips, among the code units below 256.\<close>

definition is_white_space :: "char \<Rightarrow> bool" where
  "is_white_space c =
     ((of_char c :: nat) \<in> {0x09, 0x0A, 0x0B, 0x0C, 0x0D, 0x20, 0xA0})"

definition trim :: "string \<Rightarrow> string" where
  "trim s = rev (dropWhile is_white_space (rev (dropWhile is_white_space s)))"

text \<open>\<open>x && x.length <= n\<close> for a string property \<open>x\<close> that may be missing.\<close>

definition present_and_at_most :: "string option \<Rightarrow> nat \<Rightarrow> (string \<Rightarrow> string) \<Rightarrow> bool" where
  "present_and_at_most x n f =
     (case x of None \<Rightarrow> False | Some s \<Rightarrow> s \<noteq> [] \<and> length (f s) \<le> n)"

text \<open>The body of the \<open>forEach\<close> callback of \<open>validateQuickReplies\<close>.\<close>

definition validateQuickReply :: "QuickReply \<Rightarrow> invariant_error + unit" where
  "validateQuickReply quickReply =
     (if content_type quickReply = ''text'' then
        (case invariant (present_and_at_most (title quickReply) 20 trim)
                ''title of quick reply has a 20 character limit, after that it gets truncated'' of
           Inl e \<Rightarrow> Inl e
         | Inr _ \<Rightarrow>
             invariant (present_and_at_most (payload quickReply) 1000 (\<lambda>s. s))
               ''payload of quick reply has a 1000 character limit'')
      else Inr ())"

text \<open>\<open>quickReplies.forEach(...)\<close>: the first exception ends the loop.\<close>

fun forEach_validate :: "QuickReply list \<Rightarrow> invariant_error + unit" where
  "forEach_validate [] = Inr ()"
| "forEach_validate (quickReply # rest) =
     (case validateQuickReply quickReply of
        Inl e \<Rightarrow> Inl e
      | Inr _ \<Rightarrow> forEach_validate rest)"

definition validateQuickReplies :: "quick_replies_value \<Rightarrow> invariant_error + unit" where
  "validateQuickReplies quickReplies =
     (case invariant
             (case quickReplies of NotArray _ \<Rightarrow> False | IsArray qs \<Rightarrow> length qs \<le> 11)
             ''quick_replies is an array and limited to 11'' of
        Inl e \<Rightarrow> Inl e
      | Inr _ \<Rightarrow>
          (case quickReplies of
             NotArray _ \<Rightarrow> Inr ()
           | IsArray qs \<Rightarrow> forEach_validate qs))"

text \<open>
  \<open>const message = { ...msg }\<close>, then, if \<open>options.quick_replies\<close> is truthy, is an
  array and has a length of at least 1, the validation and
  \<open>message.quick_replies = options.quick_replies\<close>.
\<close>

definition createMessage ::
  "'a Message_scheme \<Rightarrow> MessageOptions \<Rightarrow> invariant_error + 'a Message_scheme" where
  "createMessage msg options =
     (let message = msg in
      case options_quick_replies options of
        None \<Rightarrow> Inr message
      | Some (NotArray truthy_value) \<Rightarrow> Inr message
      | Some (IsArray qs) \<Rightarrow>
          if length qs \<ge> 1 then
            (case validateQuickReplies (IsArray qs) of
               Inl e \<Rightarrow> Inl e
             | Inr _ \<Rightarrow> Inr (message\<lparr>quick_replies := Some qs\<rparr>))
          else Inr message)"

text \<open>
  What the validation asks of one quick reply, in one formula: a quick reply of type text
  has a non-empty title of at most 20 characters after trimming and a non-empty payload
  of at most 1000 characters.
\<close>

definition quick_reply_ok :: "QuickReply \<Rightarrow> bool" where
  "quick_reply_ok q =
     (content_type q \<noteq> ''text'' \<or>
      (present_and_at_most (title q) 20 trim \<and> present_and_at_most (payload q) 1000 (\<lambda>s. s)))"

definition text_quick_reply :: "string \<Rightarrow> string \<Rightarrow> QuickReply" where
  "text_quick_reply t p =
     \<lparr>content_type = ''text'', title = Some t, payload = Some p, image_url = None\<rparr>"

definition pick_a_color :: Message where
  "pick_a_color = \<lparr>message_text = Some ''Pick a color:'', attachment = None, quick_replies = None\<rparr>"

section \<open>Properties of the JSON parser\<close>

lemma skip_ws_length: "skip_ws cs = c # r \<Longrightarrow> length r < length cs"
proof -
  assume a: "skip_ws cs = c # r"
  have "length (dropWhile is_ws cs) \<le> length cs" by (rule length_dropWhile_le)
  with a show ?thesis by (simp add: skip_ws_def)
qed

lemma skip_ws_length_le: "length (skip_ws cs) \<le> length cs"
  by (simp add: skip_ws_def length_dropWhile_le)

lemma parse_chars_length: "parse_chars acc cs = Some (s, r) \<Longrightarrow> length r < length cs"
  by (induction acc cs rule: parse_chars.induct) (auto split: if_splits option.splits)

lemma parse_digits1_length: "parse_digits1 cs = Some (ds, r) \<Longrightarrow> length r < length cs"
  by (auto simp: parse_digits1_def Let_def split: if_splits
      intro: length_dropWhile_le le_neq_trans)
     (metis length_dropWhile_le le_neq_implies_less length_append takeWhile_dropWhile_id
        add_cancel_right_left length_0_conv)

lemma parse_int_part_length: "parse_int_part cs = Some (ds, r) \<Longrightarrow> length r < length cs"
proof -
  assume "parse_int_part cs = Some (ds, r)"
  then have "parse_digits1 cs = Some (ds, r)"
    by (auto simp: parse_int_part_def parse_digits1_def Let_def split: if_splits)
  then show ?thesis by (rule parse_digits1_length)
qed

lemma parse_fraction_length: "parse_fraction cs = Some (fp, r) \<Longrightarrow> length r \<le> length cs"
  by (auto simp: parse_fraction_def split: list.splits if_splits option.splits
      dest!: parse_digits1_length)

lemma parse_exponent_length: "parse_exponent cs = Some (ep, r) \<Longrightarrow> length r \<le> length cs"
  by (auto simp: parse_exponent_def split: list.splits if_splits option.splits
      dest!: parse_digits1_length)

lemma parse_number_length: "parse_number cs = Some (l, r) \<Longrightarrow> length r < length cs"
proof -
  assume a: "parse_number cs = Some (l, r)"
  obtain sign r0 where s: "(case cs of c # r \<Rightarrow> if c = CHR ''-'' then ([c], r) else ([], cs)
      | [] \<Rightarrow> ([], cs)) = (sign, r0)"
    by (cases "(case cs of c # r \<Rightarrow> if c = CHR ''-'' then ([c], r) else ([], cs)
      | [] \<Rightarrow> ([], cs))") auto
  then have l0: "length r0 \<le> length cs" by (auto split: list.splits if_splits)
  from a s obtain ip r1 fp r2 ep where
    p: "parse_int_part r0 = Some (ip, r1)" "parse_fraction r1 = Some (fp, r2)"
       "parse_exponent r2 = Some (ep, r)"
    by (auto simp: parse_number_def split: option.splits)
  have "length r \<le> length r2" using p(3) by (rule parse_exponent_length)
  moreover have "length r2 \<le> length r1" using p(2) by (rule parse_fraction_length)
  moreover have "length r1 < length r0" using p(1) by (rule parse_int_part_length)
  ultimately show ?thesis using l0 by simp
qed

text \<open>
  Reading a value consumes text, so the tests on the lengths in \<open>parse_elements\<close> and
  \<open>parse_members\<close> never fail.
\<close>

lemma parse_consumes:
  "(\<forall>v r. parse_value cs = Some (v, r) \<longrightarrow> length r < length cs)"
  "(\<forall>vs r. parse_elements acc cs = Some (vs, r) \<longrightarrow> length r < length cs)"
  "(\<forall>kvs r. parse_members acc' cs' = Some (kvs, r) \<longrightarrow> length r < length cs')"
proof (induction cs and acc cs and acc' cs' rule: parse_value_parse_elements_parse_members.induct)
  case (1 cs)
  show ?case
  proof (intro allI impI)
    fix v r assume a: "parse_value cs = Some (v, r)"
    then obtain c r0 where sk: "skip_ws cs = c # r0"
      by (cases "skip_ws cs") (auto simp: parse_value.simps [of cs])
    have l0: "length r0 < length cs" using sk by (rule skip_ws_length)
    have lc: "length (c # r0) \<le> length cs" using l0 by simp
    consider (obj) "c = CHR ''{''" | (arr) "c \<noteq> CHR ''{''" "c = CHR ''[''"
      | (str) "c \<noteq> CHR ''{''" "c \<noteq> CHR ''[''" "c = CHR 0x22"
      | (other) "c \<noteq> CHR ''{''" "c \<noteq> CHR ''[''" "c \<noteq> CHR 0x22"
      by blast
    then show "length r < length cs"
    proof cases
      case obj
      with a sk obtain c' r' where sk': "skip_ws r0 = c' # r'"
        by (cases "skip_ws r0") (auto simp: parse_value.simps [of cs])
      have l1: "length r' < length r0" using sk' by (rule skip_ws_length)
      show ?thesis
      proof (cases "c' = CHR ''}''")
        case True
        with a sk sk' obj have "r = r'" by (simp add: parse_value.simps [of cs])
        with l0 l1 show ?thesis by simp
      next
        case False
        with a sk sk' obj obtain kvs where
          m: "parse_members [] (c' # r') = Some (kvs, r)"
          by (auto simp: parse_value.simps [of cs] split: option.splits)
        have "length r < length (c' # r')"
          using "1.IH"(1) [OF sk obj sk' False] m by blast
        with l0 l1 show ?thesis by simp
      qed
    next
      case arr
      with a sk obtain c' r' where sk': "skip_ws r0 = c' # r'"
        by (cases "skip_ws r0") (auto simp: parse_value.simps [of cs])
      have l1: "length r' < length r0" using sk' by (rule skip_ws_length)
      show ?thesis
      proof (cases "c' = CHR '']''")
        case True
        with a sk sk' arr have "r = r'" by (simp add: parse_value.simps [of cs])
        with l0 l1 show ?thesis by simp
      next
        case False
        with a sk sk' arr obtain vs where
          m: "parse_elements [] (c' # r') = Some (vs, r)"
          by (auto simp: parse_value.simps [of cs] split: option.splits)
        have "length r < length (c' # r')"
          using "1.IH"(2) [OF sk arr sk' False] m by blast
        with l0 l1 show ?thesis by simp
      qed
    next
      case str
      with a sk obtain s where "parse_chars [] r0 = Some (s, r)"
        by (auto simp: parse_value.simps [of cs] split: option.splits)
      then have "length r < length r0" by (rule parse_chars_length)
      with l0 show ?thesis by simp
    next
      case other
      with a sk have
        "r = drop 4 (c # r0) \<or> r = drop 5 (c # r0) \<or> (\<exists>l. parse_number (c # r0) = Some (l, r))"
        by (auto simp: parse_value.simps [of cs] split: if_splits option.splits)
      then have "length r < length (c # r0)"
        by (auto dest: parse_number_length)
      with lc show ?thesis by simp
    qed
  qed
next
  case (2 acc cs)
  show ?case
  proof (intro allI impI)
    fix vs r assume a: "parse_elements acc cs = Some (vs, r)"
    then obtain v r1 where v: "parse_value cs = Some (v, r1)" "length r1 < length cs"
      by (auto simp: parse_elements.simps [of acc cs] split: option.splits if_splits)
    with a obtain c r' where sk: "skip_ws r1 = c # r'"
      by (cases "skip_ws r1") (auto simp: parse_elements.simps [of acc cs])
    have l1: "length r' < length r1" using sk by (rule skip_ws_length)
    show "length r < length cs"
    proof (cases "c = CHR '',''")
      case True
      with a v sk have "parse_elements (v # acc) r' = Some (vs, r)"
        by (simp add: parse_elements.simps [of acc cs])
      then have "length r < length r'"
        using "2.IH"(2) [OF v(1) refl v(2) sk True] by blast
      with l1 v(2) show ?thesis by simp
    next
      case False
      with a v sk have "r = r'"
        by (auto simp: parse_elements.simps [of acc cs] split: if_splits)
      with l1 v(2) show ?thesis by simp
    qed
  qed
next
  case (3 acc cs)
  show ?case
  proof (intro allI impI)
    fix kvs r assume a: "parse_members acc cs = Some (kvs, r)"
    then obtain c r0 where sk: "skip_ws cs = c # r0"
      by (cases "skip_ws cs") (auto simp: parse_members.simps [of acc cs])
    have l0: "length r0 < length cs" using sk by (rule skip_ws_length)
    from a sk have q: "c = CHR 0x22"
      by (auto simp: parse_members.simps [of acc cs] split: if_splits)
    with a sk obtain k r1 where k: "parse_chars [] r0 = Some (k, r1)"
      by (auto simp: parse_members.simps [of acc cs] split: option.splits)
    have l1: "length r1 < length r0" using k by (rule parse_chars_length)
    from a sk q k obtain c1 r2 where sk1: "skip_ws r1 = c1 # r2"
      by (cases "skip_ws r1") (auto simp: parse_members.simps [of acc cs])
    have l2: "length r2 < length r1" using sk1 by (rule skip_ws_length)
    from a sk q k sk1 have colon: "c1 = CHR '':''"
      by (auto simp: parse_members.simps [of acc cs] split: if_splits)
    with a sk q k sk1 obtain v r3 where v: "parse_value r2 = Some (v, r3)" "length r3 < length r2"
      by (auto simp: parse_members.simps [of acc cs] split: option.splits if_splits)
    with a sk q k sk1 colon obtain c3 r4 where sk3: "skip_ws r3 = c3 # r4"
      by (cases "skip_ws r3") (auto simp: parse_members.simps [of acc cs])
    have l4: "length r4 < length r3" using sk3 by (rule skip_ws_length)
    show "length r < length cs"
    proof (cases "c3 = CHR '',''")
      case True
      with a sk q k sk1 colon v sk3 have "parse_members (obj_set acc k v) r4 = Some (kvs, r)"
        by (simp add: parse_members.simps [of acc cs])
      then have "length r < length r4"
        using "3.IH"(2) [OF sk q k refl sk1 colon v(1) refl v(2) sk3 True] by blast
      with l0 l1 l2 v(2) l4 show ?thesis by simp
    next
      case False
      with a sk q k sk1 colon v sk3 have "r = r4"
        by (auto simp: parse_members.simps [of acc cs] split: if_splits)
      with l0 l1 l2 v(2) l4 show ?thesis by simp
    qed
  qed
qed

section \<open>Properties of the batch error classification\<close>




text \<open>
  What \<open>getErrorMessage\<close> returns, case by case: the empty string when the parser
  throws, when the parsed value is \<open>null\<close>, and when its \<open>error\<close> is \<open>undefined\<close> or
  \<open>null\<close>; otherwise whatever \<open>error.message\<close> is, \<open>undefined\<close> included.
\<close>

lemma getErrorMessage_cases:
  "getErrorMessage parse errInfo =
     (case parse (body (response errInfo)) of
        Inl e \<Rightarrow> Inr (Some (JString []))
      | Inr parsed \<Rightarrow>
          (case get_prop (Some parsed) ''error'' of
             Inl e \<Rightarrow> Inr (Some (JString []))
           | Inr err \<Rightarrow>
               (case get_prop err ''message'' of
                  Inl e \<Rightarrow> Inr (Some (JString []))
                | Inr message \<Rightarrow> Inr message)))"
  by (simp add: getErrorMessage_def getErrorMessage_try_def split: sum.split)



text \<open>
  C2, at the input where the code departs from it: the body \<open>{"error":{}}\<close> parses as
  JSON and has an error object without a message field; \<open>getErrorMessage\<close> returns
  \<open>undefined\<close> there, not the empty string.
\<close>

theorem getErrorMessage_error_without_message:
  \<open>getErrorMessage JSON_parse (errInfo_of_body ''{"error":{}}'') = Inr None\<close>
  by code_simp



section \<open>Properties of the key-case conversion\<close>

subsection \<open>Keys\<close>

lemma toLowerCase_not_upper: "\<not> is_upper (toLowerCase c)"
  by (auto simp: toLowerCase_def is_upper_def)

lemma underscore_not_upper: "\<not> is_upper (CHR ''_'')"
  by (simp add: is_upper_def)

lemma toLowerCase_id: "\<not> is_upper c \<Longrightarrow> toLowerCase c = c"
  by (simp add: toLowerCase_def)

lemma snake_scan_no_upper: "list_all (\<lambda>c. \<not> is_upper c) (snake_scan cs)"
  by (induction cs) (simp_all add: toLowerCase_not_upper underscore_not_upper)

lemma snake_scan_id: "list_all (\<lambda>c. \<not> is_upper c) cs \<Longrightarrow> snake_scan cs = cs"
  by (induction cs) (simp_all add: toLowerCase_id)

lemma snakeCase_idem: "snakeCase (snakeCase k) = snakeCase k"
  by (cases k)
     (simp_all add: snakeCase_def toLowerCase_id toLowerCase_not_upper
        snake_scan_id snake_scan_no_upper)

lemma snakeCase_no_upper: "list_all (\<lambda>c. \<not> is_upper c) (snakeCase k)"
  by (cases k) (simp_all add: snakeCase_def toLowerCase_not_upper snake_scan_no_upper)

lemma toUpperCase_idem: "toUpperCase (toUpperCase c) = toUpperCase c"
  by (auto simp: toUpperCase_def is_lower_def)

lemma toUpperCase_underscore: "toUpperCase c = CHR ''_'' \<longleftrightarrow> c = CHR ''_''"
proof (cases "is_lower c")
  case True
  have "char_of ((of_char c :: nat) - 32) \<noteq> CHR ''_''"
  proof
    assume "char_of ((of_char c :: nat) - 32) = CHR ''_''"
    then have "(of_char (char_of ((of_char c :: nat) - 32)) :: nat) = of_char (CHR ''_'')"
      by simp
    then have "((of_char c :: nat) - 32) mod 256 = 95" by simp
    moreover from True have "97 \<le> (of_char c :: nat)" "(of_char c :: nat) \<le> 122"
      by (simp_all add: is_lower_def)
    ultimately show False by (simp add: mod_less)
  qed
  moreover from True have "c \<noteq> CHR ''_''" by (auto simp: is_lower_def)
  ultimately show ?thesis using True by (simp add: toUpperCase_def)
next
  case False
  then show ?thesis by (simp add: toUpperCase_def)
qed

lemma split_underscore_nonempty: "split_underscore k \<noteq> []"
  by (induction k) (auto split: list.split)

lemma split_underscore_segments: "t \<in> set (split_underscore k) \<Longrightarrow> no_underscore t"
proof (induction k arbitrary: t)
  case Nil
  then show ?case by (simp add: no_underscore_def)
next
  case (Cons c cs)
  show ?case
  proof (cases "c = CHR ''_''")
    case True
    with Cons show ?thesis by (auto simp: no_underscore_def)
  next
    case False
    obtain s ss where sp: "split_underscore cs = s # ss"
      using split_underscore_nonempty [of cs] by (cases "split_underscore cs") auto
    with Cons.prems False have "t = c # s \<or> t \<in> set ss" by simp
    then show ?thesis
    proof
      assume "t = c # s"
      moreover have "no_underscore s" using Cons.IH [of s] sp by simp
      ultimately show ?thesis using False by (simp add: no_underscore_def)
    next
      assume "t \<in> set ss"
      then show ?thesis using Cons.IH [of t] sp by simp
    qed
  qed
qed

lemma split_underscore_plain: "no_underscore x \<Longrightarrow> split_underscore x = [x]"
  by (induction x) (auto simp: no_underscore_def)

lemma split_underscore_append:
  "no_underscore x \<Longrightarrow> split_underscore (x @ CHR ''_'' # r) = x # split_underscore r"
  by (induction x) (auto simp: no_underscore_def)

lemma split_join:
  "list_all no_underscore (x # xs) \<Longrightarrow> split_underscore (join ''_'' (x # xs)) = x # xs"
proof (induction xs arbitrary: x)
  case Nil
  then show ?case by (simp add: split_underscore_plain)
next
  case (Cons y ys)
  then have "split_underscore (join ''_'' (y # ys)) = y # ys" by simp
  moreover have "join ''_'' (x # y # ys) = x @ CHR ''_'' # join ''_'' (y # ys)" by simp
  ultimately show ?case using Cons.prems by (simp add: split_underscore_append)
qed

lemma merge_segments_nonempty: "merge_segments cur prev ss \<noteq> []"
  by (induction ss arbitrary: cur prev) auto

lemma join_Cons: "ys \<noteq> [] \<Longrightarrow> join sep (x # ys) = x @ sep @ join sep ys"
  by (cases ys) simp_all

lemma join_merge_segments:
  "join ''_'' (merge_segments cur prev ss) = cur @ camel_join prev ss"
  by (induction ss arbitrary: cur prev) (simp_all add: join_Cons merge_segments_nonempty)

lemma no_underscore_append:
  "no_underscore (x @ y) \<longleftrightarrow> no_underscore x \<and> no_underscore y"
  by (auto simp: no_underscore_def)

lemma capitalize_no_underscore: "no_underscore t \<Longrightarrow> no_underscore (capitalize t)"
proof (cases t)
  case Nil
  then show ?thesis by (simp add: no_underscore_def)
next
  case (Cons a list)
  assume "no_underscore t"
  with Cons have "a \<noteq> CHR ''_''" "CHR ''_'' \<notin> set list"
    by (auto simp: no_underscore_def)
  then have "toUpperCase a \<noteq> CHR ''_''" "CHR ''_'' \<notin> set list"
    by (simp_all add: toUpperCase_underscore)
  with Cons show ?thesis by (auto simp: no_underscore_def)
qed

lemma merge_segments_no_underscore:
  "no_underscore cur \<Longrightarrow> list_all no_underscore ss \<Longrightarrow>
   list_all no_underscore (merge_segments cur prev ss)"
proof (induction ss arbitrary: cur prev)
  case Nil
  then show ?case by simp
next
  case (Cons t ts)
  then have "no_underscore (capitalize t)"
    by (simp add: capitalize_no_underscore)
  moreover from this Cons.prems have "no_underscore (cur @ capitalize t)"
    by (simp add: no_underscore_append)
  ultimately show ?case using Cons by simp
qed

lemma capitalize_take1:
  "take 1 o1 = take 1 (capitalize t) \<Longrightarrow> capitalize o1 = o1"
  by (cases o1; cases t) (simp_all add: toUpperCase_idem)

lemma join_underscore_concat:
  "join ''_'' (x # xs) = x @ concat (map (\<lambda>t. CHR ''_'' # t) xs)"
  by (induction xs arbitrary: x) (simp_all add: join_Cons)

lemma merge_segments_fixed:
  "(cur = [] \<longleftrightarrow> prev = []) \<Longrightarrow>
   \<exists>o1 os. merge_segments cur prev ss = o1 # os \<and> (o1 = [] \<longleftrightarrow> cur = []) \<and>
      take 1 o1 = take 1 cur \<and> camel_join o1 os = concat (map (\<lambda>t. CHR ''_'' # t) os)"
proof (induction ss arbitrary: cur prev)
  case Nil
  then show ?case by simp
next
  case (Cons t ts)
  show ?case
  proof (cases "prev = [] \<or> t = []")
    case True
    have "(capitalize t = []) \<longleftrightarrow> (t = [])" by (cases t) simp_all
    from Cons.IH [OF this] obtain p1 ps where
      p: "merge_segments (capitalize t) t ts = p1 # ps" "(p1 = []) \<longleftrightarrow> (capitalize t = [])"
         "take 1 p1 = take 1 (capitalize t)"
         "camel_join p1 ps = concat (map (\<lambda>t. CHR ''_'' # t) ps)"
      by blast
    have cap: "capitalize p1 = p1" using p(3) by (rule capitalize_take1)
    have e: "cur = [] \<or> p1 = []"
      using True Cons.prems p(2) by (cases t) auto
    have "camel_join cur (p1 # ps) = concat (map (\<lambda>t. CHR ''_'' # t) (p1 # ps))"
      using e cap p(4) by auto
    with True p(1) show ?thesis by simp
  next
    case False
    then have ne: "prev \<noteq> []" "t \<noteq> []" by simp_all
    with Cons.prems have cne: "cur \<noteq> []" by simp
    have "(cur @ capitalize t = []) \<longleftrightarrow> (t = [])" using cne ne by simp
    from Cons.IH [OF this] obtain o1 os where
      p: "merge_segments (cur @ capitalize t) t ts = o1 # os"
         "(o1 = []) \<longleftrightarrow> (cur @ capitalize t = [])"
         "take 1 o1 = take 1 (cur @ capitalize t)"
         "camel_join o1 os = concat (map (\<lambda>t. CHR ''_'' # t) os)"
      by blast
    have "take 1 o1 = take 1 cur" using p(3) cne by (cases cur) simp_all
    with False p cne show ?thesis by simp
  qed
qed

lemma camelCase_idem: "camelCase (camelCase k) = camelCase k"
proof -
  obtain s ss where sp: "split_underscore k = s # ss"
    using split_underscore_nonempty [of k] by (cases "split_underscore k") auto
  have nu: "no_underscore s" "list_all no_underscore ss"
    using split_underscore_segments [of _ k] sp by (simp_all add: list_all_iff)
  have c1: "camelCase k = join ''_'' (merge_segments s s ss)"
    using sp by (simp add: camelCase_def join_merge_segments)
  obtain o1 os where m: "merge_segments s s ss = o1 # os"
      and f: "camel_join o1 os = concat (map (\<lambda>t. CHR ''_'' # t) os)"
    using merge_segments_fixed [of s s ss] by auto
  have "list_all no_underscore (o1 # os)"
    using merge_segments_no_underscore [OF nu, of s] m by simp
  then have "split_underscore (join ''_'' (o1 # os)) = o1 # os"
    by (rule split_join)
  then have "camelCase (join ''_'' (o1 # os)) = o1 @ camel_join o1 os"
    by (simp add: camelCase_def)
  also have "\<dots> = join ''_'' (o1 # os)"
    using f by (simp add: join_underscore_concat)
  finally show ?thesis using c1 m by simp
qed

subsection \<open>Mappings\<close>

lemma obj_set_fresh: "k \<notin> fst ` set kvs \<Longrightarrow> obj_set kvs k v = kvs @ [(k, v)]"
  by (induction kvs) auto

lemma obj_set_keys:
  "map fst (obj_set kvs k v) = (if k \<in> fst ` set kvs then map fst kvs else map fst kvs @ [k])"
  by (induction kvs) (fastforce simp: image_iff)+

lemma obj_set_subset: "set (obj_set kvs k v) \<subseteq> insert (k, v) (set kvs)"
  by (induction kvs) (auto split: if_splits)

lemma obj_set_distinct: "distinct (map fst kvs) \<Longrightarrow> distinct (map fst (obj_set kvs k v))"
  by (simp add: obj_set_keys)

lemma map_of_obj_set: "map_of (obj_set kvs k v) = (map_of kvs)(k \<mapsto> v)"
  by (induction kvs) (auto simp: fun_eq_iff)

lemma fold_put_subset: "set (fold put xs acc) \<subseteq> set acc \<union> set xs"
proof (induction xs arbitrary: acc)
  case Nil
  show ?case by simp
next
  case (Cons x xs)
  have "set (fold put xs (put x acc)) \<subseteq> set (put x acc) \<union> set xs" by (rule Cons.IH)
  moreover have "set (put x acc) \<subseteq> insert x (set acc)"
    using obj_set_subset [of acc "fst x" "snd x"] by simp
  ultimately show ?case by auto
qed

lemma fold_put_distinct:
  "distinct (map fst acc) \<Longrightarrow> distinct (map fst (fold put xs acc))"
  by (induction xs arbitrary: acc) (simp_all add: obj_set_distinct)

lemma fold_put_keys: "fst ` set (fold put xs acc) = fst ` set acc \<union> fst ` set xs"
proof (induction xs arbitrary: acc)
  case Nil
  show ?case by simp
next
  case (Cons x xs)
  have "fst ` set (put x acc) = insert (fst x) (fst ` set acc)"
    using obj_set_keys [of acc "fst x" "snd x"]
    by (metis (no_types, lifting) insert_absorb list.set_map set_append list.simps(15)
        Un_insert_right sup_bot.right_neutral empty_set)
  with Cons.IH [of "put x acc"] show ?case by auto
qed

lemma fold_put_fresh:
  "distinct (map fst (acc @ xs)) \<Longrightarrow> fold put xs acc = acc @ xs"
proof (induction xs arbitrary: acc)
  case Nil
  show ?case by simp
next
  case (Cons x xs)
  then have "fst x \<notin> fst ` set acc" by auto
  then have "put x acc = acc @ [x]" by (simp add: obj_set_fresh)
  moreover have "distinct (map fst ((acc @ [x]) @ xs))" using Cons.prems by simp
  ultimately show ?case using Cons.IH [of "acc @ [x]"] by simp
qed

lemma rebuild_subset: "set (rebuild xs) \<subseteq> set xs"
  using fold_put_subset [of xs "[]"] by (simp add: rebuild_def)

lemma rebuild_distinct: "distinct (map fst (rebuild xs))"
  using fold_put_distinct [of "[]" xs] by (simp add: rebuild_def)

lemma rebuild_keys: "fst ` set (rebuild xs) = fst ` set xs"
  using fold_put_keys [of xs "[]"] by (simp add: rebuild_def)

lemma rebuild_id: "distinct (map fst xs) \<Longrightarrow> rebuild xs = xs"
  using fold_put_fresh [of "[]" xs] by (simp add: rebuild_def)

lemma mapKeysDeep_idem:
  "(\<And>k. f (f k) = f k) \<Longrightarrow> mapKeysDeep f (mapKeysDeep f v) = mapKeysDeep f v"
proof (induction f v rule: mapKeysDeep.induct)
  case (1 f kvs)
  let ?g = "\<lambda>kv. (f (fst kv), mapKeysDeep f (snd kv))"
  let ?ys = "rebuild (map ?g kvs)"
  have "map ?g ?ys = ?ys"
  proof (rule map_idI)
    fix y assume "y \<in> set ?ys"
    then have "y \<in> set (map ?g kvs)" using rebuild_subset by blast
    then obtain kv where kv: "kv \<in> set kvs" "y = ?g kv" by auto
    then show "?g y = y" using "1.IH" [of kv] "1.prems" by simp
  qed
  then show ?case by (simp add: rebuild_id rebuild_distinct)
next
  case (2 f xs)
  then show ?case by simp
qed simp_all

lemma mapKeysDeep_inverse:
  "distinct_keys v \<Longrightarrow> (\<And>k. k \<in> keys_deep v \<Longrightarrow> g (f k) = k) \<Longrightarrow>
   mapKeysDeep g (mapKeysDeep f v) = v"
proof (induction f v rule: mapKeysDeep.induct)
  case (1 f kvs)
  let ?F = "\<lambda>kv. (f (fst kv), mapKeysDeep f (snd kv))"
  let ?G = "\<lambda>kv. (g (fst kv), mapKeysDeep g (snd kv))"
  have d: "distinct (map fst kvs)" using "1.prems"(1) by simp
  have inj: "inj_on f (fst ` set kvs)"
  proof (rule inj_onI)
    fix a b assume "a \<in> fst ` set kvs" "b \<in> fst ` set kvs" "f a = f b"
    then have "a \<in> keys_deep (JObject kvs)" "b \<in> keys_deep (JObject kvs)" "f a = f b"
      by simp_all
    then have "g (f a) = a" "g (f b) = b" "f a = f b" using "1.prems"(2) by blast+
    then show "a = b" by metis
  qed
  have "map fst (map ?F kvs) = map f (map fst kvs)" by (simp add: comp_def)
  moreover have "distinct (map f (map fst kvs))"
    using d inj by (subst distinct_map) simp
  ultimately have "distinct (map fst (map ?F kvs))" by (simp only:)
  then have r1: "rebuild (map ?F kvs) = map ?F kvs" by (rule rebuild_id)
  have "map ?G (map ?F kvs) = kvs"
  proof -
    have "\<And>kv. kv \<in> set kvs \<Longrightarrow> ?G (?F kv) = kv"
    proof -
      fix kv assume kv: "kv \<in> set kvs"
      then have "distinct_keys (snd kv)" using "1.prems"(1) by (simp add: list_all_iff)
      moreover have "\<And>k. k \<in> keys_deep (snd kv) \<Longrightarrow> g (f k) = k"
        using "1.prems"(2) kv by auto
      ultimately have "mapKeysDeep g (mapKeysDeep f (snd kv)) = snd kv"
        using "1.IH" [OF kv] by blast
      moreover have "g (f (fst kv)) = fst kv" using "1.prems"(2) kv by auto
      ultimately show "?G (?F kv) = kv" by (simp add: prod_eq_iff)
    qed
    then show ?thesis by (simp add: map_idI)
  qed
  with r1 d show ?case by (simp add: rebuild_id)
next
  case (2 f xs)
  have "\<And>x. x \<in> set xs \<Longrightarrow> mapKeysDeep g (mapKeysDeep f x) = x"
  proof -
    fix x assume x: "x \<in> set xs"
    then have "distinct_keys x" using "2.prems"(1) by (simp add: list_all_iff)
    moreover have "\<And>k. k \<in> keys_deep x \<Longrightarrow> g (f k) = k" using "2.prems"(2) x by auto
    ultimately show "mapKeysDeep g (mapKeysDeep f x) = x" using "2.IH" [OF x] by blast
  qed
  then show ?case by (simp add: map_idI)
qed simp_all




subsection \<open>Idempotence, rewriting and round trip\<close>


text \<open>
  C4. For every mapping (every JSON value: all keys are strings and there are no opaque
  payloads) and each case convention, converting twice toward that convention gives the
  same result as converting once.
\<close>

theorem convert_idempotent: "convert (convert M C) C = convert M C"
  by (cases C)
     (simp_all add: camelcaseKeysDeep_def snakecaseKeysDeep_def mapKeysDeep_idem
        camelCase_idem snakeCase_idem)



text \<open>The conversion of the reply of the \<open>getStickerSet\<close> test is the value the test expects.\<close>

lemma getStickerSet_reply_camelcase:
  "convert getStickerSet_reply_result camel = getStickerSet_result"
  by code_simp

text \<open>
  C6. For every mapping with each key once whose keys, at every depth, are unchanged by
  camel to snake to camel, converting to snake_case and back gives the original mapping.
  The camelCase options of the \<open>createNewStickerSet\<close> test and their snake_case
  counterpart convert to the same snake_case body.
\<close>

theorem snake_camel_round_trip:
  "(distinct_keys M \<and> (\<forall>k \<in> keys_deep M. camelCase (snakeCase k) = k) \<longrightarrow>
      convert (convert M snake) camel = M) \<and>
   convert createNewStickerSet_options_camelcase snake = createNewStickerSet_options_snakecase \<and>
   convert createNewStickerSet_options_snakecase snake = createNewStickerSet_options_snakecase"
proof (intro conjI impI)
  assume "distinct_keys M \<and> (\<forall>k \<in> keys_deep M. camelCase (snakeCase k) = k)"
  then show "convert (convert M snake) camel = M"
    using mapKeysDeep_inverse [of M camelCase snakeCase]
    by (simp add: camelcaseKeysDeep_def snakecaseKeysDeep_def)
next
  show "convert createNewStickerSet_options_camelcase snake = createNewStickerSet_options_snakecase" by code_simp
next
  show "convert createNewStickerSet_options_snakecase snake = createNewStickerSet_options_snakecase" by code_simp
qed

theorem snake_camel_round_trip_witness:
  "convert (JObject [(''userId'', JNumber ''1''), (''profilePic'', JString ''x'')]) snake =
     JObject [(''user_id'', JNumber ''1''), (''profile_pic'', JString ''x'')] \<and>
   convert (convert (JObject [(''userId'', JNumber ''1''), (''profilePic'', JString ''x'')]) snake)
     camel = JObject [(''userId'', JNumber ''1''), (''profilePic'', JString ''x'')]"
proof -
  let ?M = "JObject [(''userId'', JNumber ''1''), (''profilePic'', JString ''x'')]"
  have k: "camelCase (snakeCase ''userId'') = ''userId''"
    "camelCase (snakeCase ''profilePic'') = ''profilePic''"
    by code_simp+
  have h: "distinct_keys ?M \<and> (\<forall>k \<in> keys_deep ?M. camelCase (snakeCase k) = k)"
    by (simp add: k)
  have s: "convert ?M snake =
      JObject [(''user_id'', JNumber ''1''), (''profile_pic'', JString ''x'')]"
    by code_simp
  show ?thesis using snake_camel_round_trip [of ?M] h s by simp
qed

section \<open>Properties of SlackOAuthClient.callMethod\<close>

lemma callMethod_sent:
  "snd (callMethod snakecase camelcase c m inputBody sent) =
     sent @ [(m, snakecase (JObject (callMethod_body c inputBody)))]"
  by (simp add: callMethod_def callMethod_try_def callMethod_posted_def send_def)




lemma omit_keys: "fst ` set (omit obj ks) = fst ` set obj - set ks"
  by (auto simp: omit_def)

lemma omit_distinct: "distinct (map fst obj) \<Longrightarrow> distinct (map fst (omit obj ks))"
  by (simp add: omit_def distinct_map_filter)

lemma omit_map_of:
  "k \<notin> set ks \<Longrightarrow> map_of (omit obj ks) k = map_of obj k"
  by (induction obj) (auto simp: omit_def)

lemma callMethod_body_eq:
  "callMethod_body c inputBody =
     omit inputBody [''token'', ''accessToken''] @
       [(''token'', or_else (map_of inputBody ''accessToken'')
                     (or_else (map_of inputBody ''token'') (JString (token c))))]"
  by (simp add: callMethod_body_def obj_set_fresh omit_keys)

text \<open>
  C9, as amended. \<open>callMethod\<close> sends one request: the method and the conversion of a
  body in which each key occurs once. The \<open>token\<close> field of the body is
  \<open>inputBody.accessToken\<close> when that is truthy, otherwise \<open>inputBody.token\<close> when that
  is truthy, otherwise the token of the client. The body has no key \<open>accessToken\<close>; its
  keys are \<open>token\<close> and the keys of the other fields of \<open>inputBody\<close>, and each of
  these fields is in the body with its value unchanged. This holds whatever the two key
  conversions return.
\<close>

theorem callMethod_posted_body:
  assumes "distinct (map fst inputBody)"
  shows "let posted = callMethod_body c inputBody in
     snd (callMethod snakecase camelcase c m inputBody sent) =
       sent @ [(m, snakecase (JObject posted))] \<and>
     distinct (map fst posted) \<and> ''token'' \<in> fst ` set posted \<and>
     (\<forall>a. map_of inputBody ''accessToken'' = Some a \<and> truthy (Some a) \<longrightarrow>
          map_of posted ''token'' = Some a) \<and>
     (\<forall>t. \<not> truthy (map_of inputBody ''accessToken'') \<and> map_of inputBody ''token'' = Some t \<and>
          truthy (Some t) \<longrightarrow> map_of posted ''token'' = Some t) \<and>
     (\<not> truthy (map_of inputBody ''accessToken'') \<and> \<not> truthy (map_of inputBody ''token'') \<longrightarrow>
          map_of posted ''token'' = Some (JString (token c))) \<and>
     ''accessToken'' \<notin> fst ` set posted \<and>
     fst ` set posted = insert ''token'' (fst ` set inputBody - {''token'', ''accessToken''}) \<and>
     (\<forall>k v. (k, v) \<in> set inputBody \<and> k \<noteq> ''token'' \<and> k \<noteq> ''accessToken'' \<longrightarrow>
            map_of posted k = Some v)"
proof -
  let ?X = "or_else (map_of inputBody ''accessToken'')
              (or_else (map_of inputBody ''token'') (JString (token c)))"
  let ?om = "omit inputBody [''token'', ''accessToken'']"
  let ?body = "callMethod_body c inputBody"
  have body: "?body = ?om @ [(''token'', ?X)]" by (rule callMethod_body_eq)
  have ok: "fst ` set ?om = fst ` set inputBody - {''token'', ''accessToken''}"
    using omit_keys [of inputBody "[''token'', ''accessToken'']"] by simp
  have 1: "snd (callMethod snakecase camelcase c m inputBody sent) =
       sent @ [(m, snakecase (JObject ?body))]"
    by (rule callMethod_sent)
  have 2: "distinct (map fst ?body)"
    using omit_distinct [OF assms, of "[''token'', ''accessToken'']"] ok by (auto simp: body)
  have 3: "''token'' \<in> fst ` set ?body" by (simp add: body)
  have "map_of ?om ''token'' = None" by (simp add: map_of_eq_None_iff ok)
  then have tk: "map_of ?body ''token'' = Some ?X"
    by (simp add: body map_add_Some_iff)
  have 4: "\<forall>a. map_of inputBody ''accessToken'' = Some a \<and> truthy (Some a) \<longrightarrow>
          map_of ?body ''token'' = Some a"
    unfolding tk by auto
  have 5: "\<forall>t. \<not> truthy (map_of inputBody ''accessToken'') \<and> map_of inputBody ''token'' = Some t \<and>
          truthy (Some t) \<longrightarrow> map_of ?body ''token'' = Some t"
    unfolding tk by (cases "map_of inputBody ''accessToken''") auto
  have 6: "\<not> truthy (map_of inputBody ''accessToken'') \<and> \<not> truthy (map_of inputBody ''token'') \<longrightarrow>
          map_of ?body ''token'' = Some (JString (token c))"
    unfolding tk
    by (cases "map_of inputBody ''accessToken''"; cases "map_of inputBody ''token''") auto
  have keys: "fst ` set ?body = insert ''token'' (fst ` set inputBody - {''token'', ''accessToken''})"
    using ok by (simp add: body)
  have 7: "''accessToken'' \<notin> fst ` set ?body" unfolding keys by simp
  have 8: "\<forall>k v. (k, v) \<in> set inputBody \<and> k \<noteq> ''token'' \<and> k \<noteq> ''accessToken'' \<longrightarrow>
            map_of ?body k = Some v"
  proof (intro allI impI)
    fix k v assume a: "(k, v) \<in> set inputBody \<and> k \<noteq> ''token'' \<and> k \<noteq> ''accessToken''"
    then have "map_of inputBody k = Some v" using assms by simp
    moreover have "map_of ?om k = map_of inputBody k" using a by (simp add: omit_map_of)
    ultimately show "map_of ?body k = Some v" using a by (simp add: body)
  qed
  show ?thesis
    unfolding Let_def
    by (intro conjI) (rule 1 2 3 4 5 6 7 keys 8)+
qed

theorem callMethod_posted_body_witness:
  "distinct (map fst [(''accessToken'', JString ''xoxp-custom''), (''channel'', JString ''C1''),
                      (''threadTs'', JString ''1'')]) \<and>
   snd (callMethod snakecaseKeysDeep camelcase_data (slack_client_rejecting network_error)
          ''chat.postMessage''
          [(''accessToken'', JString ''xoxp-custom''), (''channel'', JString ''C1''),
           (''threadTs'', JString ''1'')] []) =
     [(''chat.postMessage'',
       JObject [(''channel'', JString ''C1''), (''thread_ts'', JString ''1''),
                (''token'', JString ''xoxp-custom'')])] \<and>
   map_of (callMethod_body (slack_client_rejecting network_error)
             [(''accessToken'', JString ''xoxp-custom''), (''channel'', JString ''C1''),
              (''threadTs'', JString ''1'')]) ''token'' = Some (JString ''xoxp-custom'') \<and>
   map_of (callMethod_body (slack_client_rejecting network_error)
             [(''accessToken'', JString ''xoxp-custom''), (''channel'', JString ''C1''),
              (''threadTs'', JString ''1'')]) ''threadTs'' = Some (JString ''1'')"
proof -
  let ?ib = "[(''accessToken'', JString ''xoxp-custom''), (''channel'', JString ''C1''),
              (''threadTs'', JString ''1'')]"
  let ?c = "slack_client_rejecting network_error"
  have d: "distinct (map fst ?ib)" by simp
  have sn: "snakecaseKeysDeep (JObject (callMethod_body ?c ?ib)) =
      JObject [(''channel'', JString ''C1''), (''thread_ts'', JString ''1''),
               (''token'', JString ''xoxp-custom'')]"
    by code_simp
  note t = callMethod_posted_body
    [where snakecase = snakecaseKeysDeep and camelcase = camelcase_data and c = ?c
       and m = "''chat.postMessage''" and sent = "[]", OF d, unfolded Let_def]
  have 1: "snd (callMethod snakecaseKeysDeep camelcase_data ?c ''chat.postMessage'' ?ib []) =
      [] @ [(''chat.postMessage'', snakecaseKeysDeep (JObject (callMethod_body ?c ?ib)))]"
    using t by (rule conjunct1)
  have "map_of ?ib ''accessToken'' = Some (JString ''xoxp-custom'') \<and>
      truthy (Some (JString ''xoxp-custom''))"
    by simp
  then have 2: "map_of (callMethod_body ?c ?ib) ''token'' = Some (JString ''xoxp-custom'')"
    using t [THEN conjunct2, THEN conjunct2, THEN conjunct2, THEN conjunct1] by blast
  have "(''threadTs'', JString ''1'') \<in> set ?ib \<and> ''threadTs'' \<noteq> ''token'' \<and>
      ''threadTs'' \<noteq> ''accessToken''"
    by simp
  then have 3: "map_of (callMethod_body ?c ?ib) ''threadTs'' = Some (JString ''1'')"
    using t [THEN conjunct2, THEN conjunct2, THEN conjunct2, THEN conjunct2, THEN conjunct2,
        THEN conjunct2, THEN conjunct2, THEN conjunct2]
    by blast
  show ?thesis using d 1 2 3 by (simp add: sn)
qed

theorem callMethod_posted_body_counterexample:
  "map_of [(''accessToken'', JString []), (''token'', JString ''xoxp-user'')] ''accessToken'' =
     Some (JString []) \<and>
   map_of (callMethod_body (slack_client_rejecting network_error)
             [(''accessToken'', JString []), (''token'', JString ''xoxp-user'')]) ''token'' =
     Some (JString ''xoxp-user'') \<and>
   snd (callMethod snakecaseKeysDeep camelcase_data (slack_client_rejecting network_error)
          ''chat.postMessage''
          [(''accessToken'', JString []), (''token'', JString ''xoxp-user'')] []) =
     [(''chat.postMessage'', JObject [(''token'', JString ''xoxp-user'')])]"
proof -
  have 1: "callMethod_body (slack_client_rejecting network_error)
        [(''accessToken'', JString []), (''token'', JString ''xoxp-user'')] =
      [(''token'', JString ''xoxp-user'')]"
    by code_simp
  have 2: "snakecaseKeysDeep (JObject [(''token'', JString ''xoxp-user'')]) =
      JObject [(''token'', JString ''xoxp-user'')]"
    by code_simp
  show ?thesis by (simp add: callMethod_sent 1 2)
qed

subsection \<open>The posted fields under the conversion of the spec\<close>

lemma map_of_fold_put: "map_of (fold put ys acc) = map_of acc ++ map_of (rev ys)"
proof (induction ys arbitrary: acc)
  case Nil
  show ?case by simp
next
  case (Cons x xs)
  have "map_of (fold put (x # xs) acc) = map_of (put x acc) ++ map_of (rev xs)"
    using Cons.IH [of "put x acc"] by simp
  also have "map_of (put x acc) = (map_of acc)(fst x \<mapsto> snd x)"
    by (simp add: map_of_obj_set)
  also have "(map_of acc)(fst x \<mapsto> snd x) ++ map_of (rev xs) =
      map_of acc ++ map_of (rev (x # xs))"
    by (cases x) (simp add: map_add_upd_left fun_eq_iff map_add_def split: option.split)
  finally show ?case .
qed

lemma map_of_rebuild: "map_of (rebuild ys) = map_of (rev ys)"
  by (simp add: rebuild_def map_of_fold_put)

lemma map_of_rebuild_unique:
  assumes "(k, v) \<in> set ys" and "\<And>v'. (k, v') \<in> set ys \<Longrightarrow> v' = v"
  shows "map_of (rebuild ys) k = Some v"
proof -
  have "(k, v) \<in> set (rev ys)" using assms(1) by simp
  then obtain v' where v': "map_of (rev ys) k = Some v'"
    using weak_map_of_SomeI by fastforce
  then have "(k, v') \<in> set ys" using map_of_SomeD by fastforce
  then have "v' = v" by (rule assms(2))
  with v' show ?thesis by (simp add: map_of_rebuild)
qed

lemma rebuild_snoc: "rebuild (ys @ [(k, v)]) = obj_set (rebuild ys) k v"
  by (simp add: rebuild_def)

lemma snakeCase_token: "snakeCase ''token'' = ''token''"
  by code_simp

lemma snakeCase_not_accessToken: "snakeCase k \<noteq> ''accessToken''"
proof
  assume "snakeCase k = ''accessToken''"
  moreover have "list_all (\<lambda>c. \<not> is_upper c) (snakeCase k)" by (rule snakeCase_no_upper)
  ultimately have "list_all (\<lambda>c. \<not> is_upper c) ''accessToken''" by simp
  then show False by (simp add: is_upper_def)
qed

text \<open>
  With the \<open>snakecaseKeysDeep\<close> of section 4.1 of the spec, the object posted has
  each key once; its \<open>token\<close> field is the token chosen above; it has no key
  \<open>accessToken\<close>; and every other field whose snake-cased key is shared with no other
  field arrives under that key, with the keys of its value converted.
\<close>

lemma posted_fields_snakecase:
  assumes "distinct (map fst inputBody)"
  shows "let fs = posted_fields c inputBody in
     snd (callMethod snakecaseKeysDeep camelcase c m inputBody sent) = sent @ [(m, JObject fs)] \<and>
     distinct (map fst fs) \<and> ''token'' \<in> fst ` set fs \<and>
     (\<forall>a. map_of inputBody ''accessToken'' = Some a \<and> truthy (Some a) \<longrightarrow>
          map_of fs ''token'' = Some (snakecaseKeysDeep a)) \<and>
     (\<forall>t. \<not> truthy (map_of inputBody ''accessToken'') \<and> map_of inputBody ''token'' = Some t \<and>
          truthy (Some t) \<longrightarrow> map_of fs ''token'' = Some (snakecaseKeysDeep t)) \<and>
     (\<not> truthy (map_of inputBody ''accessToken'') \<and> \<not> truthy (map_of inputBody ''token'') \<longrightarrow>
          map_of fs ''token'' = Some (JString (token c))) \<and>
     ''accessToken'' \<notin> fst ` set fs \<and>
     fst ` set fs =
       snakeCase ` insert ''token'' (fst ` set inputBody - {''token'', ''accessToken''}) \<and>
     (\<forall>k v. (k, v) \<in> set inputBody \<and> k \<noteq> ''token'' \<and> k \<noteq> ''accessToken'' \<and>
            snakeCase k \<noteq> ''token'' \<and>
            (\<forall>k' \<in> fst ` set inputBody - {''token'', ''accessToken''}.
               snakeCase k' = snakeCase k \<longrightarrow> k' = k) \<longrightarrow>
            map_of fs (snakeCase k) = Some (snakecaseKeysDeep v))"
proof -
  let ?X = "or_else (map_of inputBody ''accessToken'')
              (or_else (map_of inputBody ''token'') (JString (token c)))"
  let ?om = "omit inputBody [''token'', ''accessToken'']"
  let ?F = "\<lambda>kv. (snakeCase (fst kv), mapKeysDeep snakeCase (snd kv))"
  let ?fields = "rebuild (map ?F (callMethod_body c inputBody))"
  let ?tok = "snakecaseKeysDeep ?X"
  have body: "callMethod_body c inputBody = ?om @ [(''token'', ?X)]"
    by (rule callMethod_body_eq)
  have posted: "callMethod_posted snakecaseKeysDeep c inputBody = JObject ?fields"
    by (simp add: callMethod_posted_def snakecaseKeysDeep_def)
  have f_eq: "?fields = obj_set (rebuild (map ?F ?om)) ''token'' ?tok"
    by (simp add: body rebuild_snoc snakeCase_token snakecaseKeysDeep_def)
  have pf: "posted_fields c inputBody = ?fields"
    by (simp add: posted_fields_def posted)
  have 1: "snd (callMethod snakecaseKeysDeep camelcase c m inputBody sent) =
      sent @ [(m, JObject ?fields)]"
    using posted by (simp add: callMethod_sent callMethod_posted_def)
  have 2: "distinct (map fst ?fields)" by (rule rebuild_distinct)
  have 3: "map_of ?fields ''token'' = Some ?tok"
    by (simp add: f_eq map_of_obj_set)
  have 4: "\<forall>a. map_of inputBody ''accessToken'' = Some a \<and> truthy (Some a) \<longrightarrow>
          map_of ?fields ''token'' = Some (snakecaseKeysDeep a)"
    unfolding 3 by auto
  have 5: "\<forall>t. \<not> truthy (map_of inputBody ''accessToken'') \<and> map_of inputBody ''token'' = Some t \<and>
          truthy (Some t) \<longrightarrow> map_of ?fields ''token'' = Some (snakecaseKeysDeep t)"
    unfolding 3 by (cases "map_of inputBody ''accessToken''") auto
  have 6: "\<not> truthy (map_of inputBody ''accessToken'') \<and> \<not> truthy (map_of inputBody ''token'') \<longrightarrow>
          map_of ?fields ''token'' = Some (JString (token c))"
    unfolding 3
    by (cases "map_of inputBody ''accessToken''"; cases "map_of inputBody ''token''")
       (auto simp: snakecaseKeysDeep_def)
  have keys: "fst ` set ?fields =
       snakeCase ` insert ''token'' (fst ` set inputBody - {''token'', ''accessToken''})"
  proof -
    have "fst ` set ?fields = fst ` set (map ?F (callMethod_body c inputBody))"
      by (rule rebuild_keys)
    also have "\<dots> = snakeCase ` fst ` set (callMethod_body c inputBody)"
      by (simp add: image_image)
    also have "fst ` set (callMethod_body c inputBody) =
        insert ''token'' (fst ` set inputBody - {''token'', ''accessToken''})"
      using omit_keys [of inputBody "[''token'', ''accessToken'']"] by (simp add: body)
    finally show ?thesis .
  qed
  have 7: "''accessToken'' \<notin> fst ` set ?fields"
  proof
    assume "''accessToken'' \<in> fst ` set ?fields"
    then have "''accessToken'' \<in> range snakeCase" unfolding keys by blast
    then obtain k where "snakeCase k = ''accessToken''" by auto
    then show False using snakeCase_not_accessToken by blast
  qed
  have 8: "\<forall>k v. (k, v) \<in> set inputBody \<and> k \<noteq> ''token'' \<and> k \<noteq> ''accessToken'' \<and>
            snakeCase k \<noteq> ''token'' \<and>
            (\<forall>k' \<in> fst ` set inputBody - {''token'', ''accessToken''}.
               snakeCase k' = snakeCase k \<longrightarrow> k' = k) \<longrightarrow>
            map_of ?fields (snakeCase k) = Some (snakecaseKeysDeep v)"
  proof (intro allI impI)
    fix k v
    assume a: "(k, v) \<in> set inputBody \<and> k \<noteq> ''token'' \<and> k \<noteq> ''accessToken'' \<and>
            snakeCase k \<noteq> ''token'' \<and>
            (\<forall>k' \<in> fst ` set inputBody - {''token'', ''accessToken''}.
               snakeCase k' = snakeCase k \<longrightarrow> k' = k)"
    then have in_om: "(k, v) \<in> set ?om" by (simp add: omit_def)
    then have m1: "(snakeCase k, snakecaseKeysDeep v) \<in> set (map ?F ?om)"
      by (force simp: snakecaseKeysDeep_def)
    have m2: "\<And>v'. (snakeCase k, v') \<in> set (map ?F ?om) \<Longrightarrow> v' = snakecaseKeysDeep v"
    proof -
      fix v' assume "(snakeCase k, v') \<in> set (map ?F ?om)"
      then obtain k'' v'' where kv: "(k'', v'') \<in> set ?om" "snakeCase k'' = snakeCase k"
          "v' = mapKeysDeep snakeCase v''"
        by auto
      then have "(k'', v'') \<in> set inputBody" "k'' \<in> fst ` set inputBody - {''token'', ''accessToken''}"
        by (force simp: omit_def)+
      with a kv(2) have "k'' = k" by blast
      with \<open>(k'', v'') \<in> set inputBody\<close> a assms have "v'' = v"
        by (meson eq_key_imp_eq_value)
      with kv(3) show "v' = snakecaseKeysDeep v" by (simp add: snakecaseKeysDeep_def)
    qed
    have "map_of (rebuild (map ?F ?om)) (snakeCase k) = Some (snakecaseKeysDeep v)"
      using m1 m2 by (rule map_of_rebuild_unique)
    with a show "map_of ?fields (snakeCase k) = Some (snakecaseKeysDeep v)"
      by (simp add: f_eq map_of_obj_set)
  qed
  have "snakeCase ''token'' \<in>
      snakeCase ` insert ''token'' (fst ` set inputBody - {''token'', ''accessToken''})"
    by (rule imageI) simp
  then have 9: "''token'' \<in> fst ` set ?fields"
    unfolding keys snakeCase_token .
  show ?thesis
    unfolding Let_def pf
    by (intro conjI) (rule 1 2 9 4 5 6 7 keys 8)+
qed

text \<open>Two fields with one snake-cased key leave one field, the later.\<close>

lemma posted_fields_collision:
  "posted_fields (slack_client_rejecting network_error)
     [(''userId'', JString ''U1''), (''user_id'', JString ''U2'')] =
   [(''user_id'', JString ''U2''), (''token'', JString ''xoxb'')]"
  by code_simp

section \<open>Properties of the error handling of the clients\<close>






section \<open>Properties of Messenger.createMessage\<close>

text \<open>The loop with its exceptions accepts exactly the lists of acceptable quick replies.\<close>

lemma forEach_validate_iff: "(forEach_validate qs = Inr ()) \<longleftrightarrow> list_all quick_reply_ok qs"
  by (induction qs)
     (auto simp: validateQuickReply_def quick_reply_ok_def invariant_def split: sum.splits)

lemma forEach_validate_cases:
  "forEach_validate qs = Inr () \<or> (\<exists>e. forEach_validate qs = Inl e)"
  by (cases "forEach_validate qs") auto

lemma validateQuickReplies_iff:
  "(validateQuickReplies (IsArray qs) = Inr ()) \<longleftrightarrow> (length qs \<le> 11 \<and> list_all quick_reply_ok qs)"
  by (simp add: validateQuickReplies_def invariant_def forEach_validate_iff)

lemma createMessage_array:
  "qs \<noteq> [] \<Longrightarrow> options_quick_replies options = Some (IsArray qs) \<Longrightarrow>
   createMessage msg options =
     (case validateQuickReplies (IsArray qs) of
        Inl e \<Rightarrow> Inl e
      | Inr _ \<Rightarrow> Inr (msg\<lparr>quick_replies := Some qs\<rparr>))"
  by (cases qs) (auto simp: createMessage_def split: sum.splits)

lemma createMessage_valid:
  assumes "qs \<noteq> []" "options_quick_replies options = Some (IsArray qs)"
    "length qs \<le> 11" "list_all quick_reply_ok qs"
  shows "createMessage msg options = Inr (msg\<lparr>quick_replies := Some qs\<rparr>)"
proof -
  have "validateQuickReplies (IsArray qs) = Inr ()"
    using assms(3,4) by (simp add: validateQuickReplies_iff)
  then show ?thesis using createMessage_array [OF assms(1,2), of msg] by simp
qed

lemma createMessage_invalid:
  assumes "qs \<noteq> []" "options_quick_replies options = Some (IsArray qs)"
    "\<not> (length qs \<le> 11 \<and> list_all quick_reply_ok qs)"
  shows "\<exists>e. createMessage msg options = Inl e"
proof -
  have "validateQuickReplies (IsArray qs) \<noteq> Inr ()"
    using assms(3) by (simp add: validateQuickReplies_iff)
  then obtain e where "validateQuickReplies (IsArray qs) = Inl e"
    by (cases "validateQuickReplies (IsArray qs)") auto
  then show ?thesis using createMessage_array [OF assms(1,2), of msg] by simp
qed

lemma createMessage_not_attached:
  assumes "options_quick_replies options = None \<or>
           (\<exists>t. options_quick_replies options = Some (NotArray t)) \<or>
           options_quick_replies options = Some (IsArray [])"
  shows "createMessage msg options = Inr msg"
  using assms by (auto simp: createMessage_def)

lemma quick_reply_not_ok:
  assumes "content_type q = ''text''"
    and "title q = None \<or> title q = Some [] \<or> (\<exists>t. title q = Some t \<and> length (trim t) > 20) \<or>
         payload q = None \<or> payload q = Some [] \<or> (\<exists>p. payload q = Some p \<and> length p > 1000)"
  shows "\<not> quick_reply_ok q"
  using assms by (auto simp: quick_reply_ok_def present_and_at_most_def)

text \<open>
  C10, as amended. \<open>createMessage\<close> throws when \<open>options.quick_replies\<close> is an
  array of more than 11 items, or holds a quick reply of type text whose title is missing
  or longer than 20 characters after trimming, or whose payload is missing or longer than
  1000 characters. It attaches a non-empty array that passes the validation, and returns
  the message as it is when \<open>options.quick_replies\<close> is missing, is no array or is
  empty. Whenever it returns, the text, the attachment and every further field of the
  input message are unchanged, and \<open>quick_replies\<close> is either unchanged or the
  non-empty array of the options.
\<close>

theorem createMessage_quick_replies:
  "(options_quick_replies options = Some (IsArray qs) \<and> length qs > 11 \<longrightarrow>
      (\<exists>e. createMessage msg options = Inl e)) \<and>
   (options_quick_replies options = Some (IsArray qs) \<and> q \<in> set qs \<and> content_type q = ''text'' \<and>
      (title q = None \<or> (\<exists>t. title q = Some t \<and> length (trim t) > 20) \<or>
       payload q = None \<or> (\<exists>p. payload q = Some p \<and> length p > 1000)) \<longrightarrow>
      (\<exists>e. createMessage msg options = Inl e)) \<and>
   (options_quick_replies options = Some (IsArray qs) \<and> qs \<noteq> [] \<and> length qs \<le> 11 \<and>
      list_all quick_reply_ok qs \<longrightarrow>
      createMessage msg options = Inr (msg\<lparr>quick_replies := Some qs\<rparr>)) \<and>
   (options_quick_replies options = None \<or>
      (\<exists>t. options_quick_replies options = Some (NotArray t)) \<or>
      options_quick_replies options = Some (IsArray []) \<longrightarrow>
      createMessage msg options = Inr msg) \<and>
   (createMessage msg options = Inr message \<longrightarrow>
      message_text message = message_text msg \<and> attachment message = attachment msg \<and>
      Message.more message = Message.more msg \<and>
      (quick_replies message = quick_replies msg \<or>
       (\<exists>qs'. options_quick_replies options = Some (IsArray qs') \<and> qs' \<noteq> [] \<and>
              quick_replies message = Some qs')))"
proof (intro conjI impI)
  assume a: "options_quick_replies options = Some (IsArray qs) \<and> length qs > 11"
  then have "qs \<noteq> []" by auto
  then show "\<exists>e. createMessage msg options = Inl e"
    using a by (intro createMessage_invalid [of qs]) simp_all
next
  assume a: "options_quick_replies options = Some (IsArray qs) \<and> q \<in> set qs \<and>
      content_type q = ''text'' \<and>
      (title q = None \<or> (\<exists>t. title q = Some t \<and> length (trim t) > 20) \<or>
       payload q = None \<or> (\<exists>p. payload q = Some p \<and> length p > 1000))"
  then have "\<not> quick_reply_ok q" by (intro quick_reply_not_ok) auto
  with a have "\<not> list_all quick_reply_ok qs" by (auto simp: list_all_iff)
  moreover from a have "qs \<noteq> []" by auto
  ultimately show "\<exists>e. createMessage msg options = Inl e"
    using a by (intro createMessage_invalid [of qs]) simp_all
next
  assume "options_quick_replies options = Some (IsArray qs) \<and> qs \<noteq> [] \<and> length qs \<le> 11 \<and>
      list_all quick_reply_ok qs"
  then show "createMessage msg options = Inr (msg\<lparr>quick_replies := Some qs\<rparr>)"
    by (intro createMessage_valid) simp_all
next
  assume "options_quick_replies options = None \<or>
      (\<exists>t. options_quick_replies options = Some (NotArray t)) \<or>
      options_quick_replies options = Some (IsArray [])"
  then show "createMessage msg options = Inr msg" by (rule createMessage_not_attached)
next
  assume r: "createMessage msg options = Inr message"
  have "message = msg \<or>
      (\<exists>qs'. options_quick_replies options = Some (IsArray qs') \<and> qs' \<noteq> [] \<and>
             message = msg\<lparr>quick_replies := Some qs'\<rparr>)"
    using r
    by (auto simp: createMessage_def split: option.splits quick_replies_value.splits
        if_splits sum.splits)
  then have "message_text message = message_text msg \<and> attachment message = attachment msg \<and>
      Message.more message = Message.more msg \<and>
      (quick_replies message = quick_replies msg \<or>
       (\<exists>qs'. options_quick_replies options = Some (IsArray qs') \<and> qs' \<noteq> [] \<and>
              quick_replies message = Some qs'))"
    by auto
  then show "message_text message = message_text msg" "attachment message = attachment msg"
    "Message.more message = Message.more msg"
    "quick_replies message = quick_replies msg \<or>
       (\<exists>qs'. options_quick_replies options = Some (IsArray qs') \<and> qs' \<noteq> [] \<and>
              quick_replies message = Some qs')"
    by blast+
qed

theorem createMessage_quick_replies_counterexample:
  "createMessage
     \<lparr>message_text = Some ''Pick a color:'', attachment = None,
      quick_replies = Some [text_quick_reply ''Red'' ''RED'']\<rparr>
     \<lparr>options_quick_replies = Some (IsArray [text_quick_reply ''Green'' ''GREEN''])\<rparr> =
   Inr \<lparr>message_text = Some ''Pick a color:'', attachment = None,
        quick_replies = Some [text_quick_reply ''Green'' ''GREEN'']\<rparr> \<and>
   Some [text_quick_reply ''Green'' ''GREEN''] \<noteq> Some [text_quick_reply ''Red'' ''RED'']"
  by code_simp

theorem createMessage_quick_replies_witness:
  "(\<exists>e. createMessage pick_a_color
          \<lparr>options_quick_replies =
             Some (IsArray (replicate 12 (text_quick_reply ''Red'' ''RED'')))\<rparr> = Inl e) \<and>
   (\<exists>e. createMessage pick_a_color
          \<lparr>options_quick_replies =
             Some (IsArray [text_quick_reply ''123456789012345678901'' ''RED''])\<rparr> = Inl e) \<and>
   createMessage pick_a_color
     \<lparr>options_quick_replies = Some (IsArray [text_quick_reply ''  Red  '' ''RED''])\<rparr> =
     Inr (pick_a_color\<lparr>quick_replies := Some [text_quick_reply ''  Red  '' ''RED'']\<rparr>) \<and>
   createMessage pick_a_color \<lparr>options_quick_replies = None\<rparr> = Inr pick_a_color \<and>
   createMessage pick_a_color \<lparr>options_quick_replies = Some (NotArray True)\<rparr> = Inr pick_a_color"
proof -
  let ?red = "text_quick_reply ''Red'' ''RED''"
  let ?long = "text_quick_reply ''123456789012345678901'' ''RED''"
  let ?ok = "text_quick_reply ''  Red  '' ''RED''"
  let ?o1 = "\<lparr>options_quick_replies = Some (IsArray (replicate 12 ?red))\<rparr>"
  let ?o2 = "\<lparr>options_quick_replies = Some (IsArray [?long])\<rparr>"
  let ?o3 = "\<lparr>options_quick_replies = Some (IsArray [?ok])\<rparr>"
  let ?o4 = "\<lparr>options_quick_replies = None\<rparr>"
  let ?o5 = "\<lparr>options_quick_replies = Some (NotArray True)\<rparr>"
  have h1: "options_quick_replies ?o1 = Some (IsArray (replicate 12 ?red)) \<and>
      length (replicate 12 ?red) > 11"
    by simp
  have "trim ''123456789012345678901'' = ''123456789012345678901''" by code_simp
  then have h2: "options_quick_replies ?o2 = Some (IsArray [?long]) \<and> ?long \<in> set [?long] \<and>
      content_type ?long = ''text'' \<and>
      (title ?long = None \<or> (\<exists>t. title ?long = Some t \<and> length (trim t) > 20) \<or>
       payload ?long = None \<or> (\<exists>p. payload ?long = Some p \<and> length p > 1000))"
    by (simp add: text_quick_reply_def)
  have "quick_reply_ok ?ok" by code_simp
  then have h3: "options_quick_replies ?o3 = Some (IsArray [?ok]) \<and> [?ok] \<noteq> [] \<and>
      length [?ok] \<le> 11 \<and> list_all quick_reply_ok [?ok]"
    by simp
  have h4: "options_quick_replies ?o4 = None \<or>
      (\<exists>t. options_quick_replies ?o4 = Some (NotArray t)) \<or>
      options_quick_replies ?o4 = Some (IsArray [])"
    by simp
  have h5: "options_quick_replies ?o5 = None \<or>
      (\<exists>t. options_quick_replies ?o5 = Some (NotArray t)) \<or>
      options_quick_replies ?o5 = Some (IsArray [])"
    by auto
  note t = createMessage_quick_replies
  have 1: "\<exists>e. createMessage pick_a_color ?o1 = Inl e"
    using t [where options = ?o1 and qs = "replicate 12 ?red" and msg = pick_a_color] h1 by blast
  have 2: "\<exists>e. createMessage pick_a_color ?o2 = Inl e"
    using t [where options = ?o2 and qs = "[?long]" and q = ?long and msg = pick_a_color] h2 by blast
  have 3: "createMessage pick_a_color ?o3 = Inr (pick_a_color\<lparr>quick_replies := Some [?ok]\<rparr>)"
    using t [where options = ?o3 and qs = "[?ok]" and msg = pick_a_color] h3 by blast
  have 4: "createMessage pick_a_color ?o4 = Inr pick_a_color"
    using t [where options = ?o4 and msg = pick_a_color] h4 by blast
  have 5: "createMessage pick_a_color ?o5 = Inr pick_a_color"
    using t [where options = ?o5 and msg = pick_a_color] h5 by blast
  from 1 2 3 4 5 show ?thesis by (intro conjI)
qed

end
